theory Spec2Isabelle
  imports Main "HOL-Library.Monad_Syntax" "HOL-Library.Sublist"
begin

section \<open>Strings\<close>

text \<open>
  A Python \<open>str\<close> is modelled as a \<open>string\<close>, one \<open>char\<close> per code point, which covers
  the code points below 256. \<open>isspace\<close> is Python's \<open>str.isspace\<close> on one character of
  that range: the code points 9 to 13, 28 to 32, 133 and 160.
\<close>

definition isspace :: "char \<Rightarrow> bool" where
  "isspace ch = ((of_char ch :: nat) \<in> {9, 10, 11, 12, 13, 28, 29, 30, 31, 32, 133, 160})"

text \<open>\<open>s.rstrip()\<close> with no argument removes the trailing whitespace of \<open>s\<close>.\<close>

definition rstrip :: "string \<Rightarrow> string" where
  "rstrip s = rev (dropWhile isspace (rev s))"

text \<open>\<open>s.endswith(suf)\<close>.\<close>

definition endswith :: "string \<Rightarrow> string \<Rightarrow> bool" where
  "endswith s suf = (length suf \<le> length s \<and> drop (length s - length suf) s = suf)"

text \<open>\<open>s.join(xs)\<close>.\<close>

fun join :: "string \<Rightarrow> string list \<Rightarrow> string" where
  "join s [] = []"
| "join s [x] = x"
| "join s (x # y # ys) = x @ s @ join s (y # ys)"

section \<open>The data model\<close>

datatype SeparatorStyle =
    SINGLE | TWO | MPT | PLAIN | LLAMA_2
  | VICUNA | CHATML | CHATGLM | DOLLY | RWKV | PHOENIX | ROBIN | FALCON_CHAT

text \<open>\<open>stop_str\<close> is \<open>None\<close>, one string or a list of strings.\<close>

datatype stop_criteria = StopNone | StopStr string | StopList "string list"

text \<open>
  A turn is the two-element list of a role and a message; the message is a string or
  \<open>None\<close>. The record holds the field values of one \<open>Conversation\<close> instance, with the
  types the dataclass declares: \<open>sep\<close> is a string, \<open>sep2\<close> defaults to \<open>None\<close>.
\<close>

type_synonym turn = "string \<times> string option"

record Conversation =
  system :: string
  roles :: "string list"
  messages :: "turn list"
  offset :: int
  sep_style :: SeparatorStyle
  sep :: string
  sep2 :: "string option"
  stop_str :: stop_criteria
  stop_token_ids :: "int list option"

text \<open>
  Both exceptions the module raises are \<open>ValueError\<close>s, told apart by their message.
  \<open>IndexError\<close> and \<open>TypeError\<close> are raised by Python itself when a caller assigns to an
  item out of range or to an item of a tuple, a string or \<open>None\<close>.
\<close>

datatype error = ValueError string | IndexError | TypeError

definition missing_sep2_message :: string where
  "missing_sep2_message =
     ''SeparatorStyle.TWO/VICUNA requires both sep (sep1) and sep2 to be defined.''"

section \<open>Prompt generation\<close>

text \<open>
  The body of the loop of the \<open>TWO\<close>/\<open>VICUNA\<close> branch of \<open>get_prompt\<close>: the text that turn
  \<open>i\<close> adds to \<open>ret\<close>. \<open>if message\<close> is Python's truth test, false for \<open>None\<close> and for
  the empty string. \<open>seps\<close> is the two-element list of \<open>sep\<close> and \<open>sep2\<close>.
\<close>

definition two_turn :: "string list \<Rightarrow> nat \<Rightarrow> turn \<Rightarrow> string" where
  "two_turn seps i t =
     (case t of (role, message) \<Rightarrow>
        (case message of
           None \<Rightarrow> role @ '':''
         | Some m \<Rightarrow>
             (if m \<noteq> [] then role @ '': '' @ m @ seps ! (i mod 2)
              else role @ '':'')))"

fun two_loop :: "string list \<Rightarrow> nat \<Rightarrow> turn list \<Rightarrow> string \<Rightarrow> string" where
  "two_loop seps i [] ret = ret"
| "two_loop seps i (t # ts) ret = two_loop seps (Suc i) ts (ret @ two_turn seps i t)"

text \<open>
  The body of the loop of the other styles; \<open>n\<close> is \<open>len(self.messages)\<close>.
\<close>

definition default_turn :: "SeparatorStyle \<Rightarrow> string \<Rightarrow> nat \<Rightarrow> nat \<Rightarrow> turn \<Rightarrow> string" where
  "default_turn style sp n i t =
     (case t of (role, message) \<Rightarrow>
        (case message of
           None \<Rightarrow>
             (if style = PLAIN then role @ sp
              else if style = CHATML then role @ ''\<newline>''
              else role)
         | Some m \<Rightarrow>
             (if m \<noteq> [] then
                (if style = PLAIN then role @ m @ sp
                 else if style = CHATML then
                   role @ ''\<newline>'' @ m @ sp @ (if int i < int n - 1 then ''\<newline>'' else '''')
                 else role @ m @ sp)
              else
                (if style = PLAIN then role @ sp
                 else if style = CHATML then role @ ''\<newline>''
                 else role))))"

fun default_loop ::
  "SeparatorStyle \<Rightarrow> string \<Rightarrow> nat \<Rightarrow> nat \<Rightarrow> turn list \<Rightarrow> string \<Rightarrow> string" where
  "default_loop style sp n i [] ret = ret"
| "default_loop style sp n i (t # ts) ret =
     default_loop style sp n (Suc i) ts (ret @ default_turn style sp n i t)"

text \<open>The value of \<open>ret\<close> when the loop of the other styles has ended.\<close>

definition default_body :: "Conversation \<Rightarrow> string" where
  "default_body c =
     default_loop (sep_style c) (sep c) (length (messages c)) 0 (messages c)
       (if system c \<noteq> [] then
          (if sep_style c \<noteq> CHATML then system c @ sep c else system c)
        else '''')"

text \<open>The final cleanup, which runs for \<open>PLAIN\<close> only.\<close>

definition plain_cleanup :: "string \<Rightarrow> string \<Rightarrow> string" where
  "plain_cleanup sp ret =
     (if sp \<noteq> [] then
        (let r = rstrip ret in if \<not> endswith r sp then r @ sp else r)
      else ret)"

definition get_prompt :: "Conversation \<Rightarrow> error + string" where
  "get_prompt c =
     (if sep_style c = TWO \<or> sep_style c = VICUNA then
        (case sep2 c of
           None \<Rightarrow> Inl (ValueError missing_sep2_message)
         | Some s2 \<Rightarrow>
             Inr (two_loop [sep c, s2] 0 (messages c)
                    (if system c \<noteq> [] then system c @ sep c else '''')))
      else if sep_style c = PLAIN then Inr (plain_cleanup (sep c) (default_body c))
      else Inr (default_body c))"

section \<open>Objects and references\<close>

text \<open>
  \<open>copy\<close>, \<open>append_message\<close> and \<open>get_conv_template\<close> are about which objects are shared,
  so they are modelled on a store. Lists and \<open>Conversation\<close> instances are objects with an
  address; strings, integers, \<open>None\<close>, enumeration members and tuples of those are
  immutable and are held by value. The store is typed as the dataclass declares its fields:
  \<open>messages\<close> refers to a list of references to lists of strings and \<open>None\<close>; \<open>roles\<close>,
  \<open>stop_str\<close> and \<open>stop_token_ids\<close> hold a value, a tuple or a reference to a list of
  strings or integers. An address is an index into the store, and a new object is put at
  its end; which number a new object gets is the model's choice, that it is new is not.
\<close>

type_synonym addr = nat

datatype atom = ANone | AStr string | AInt int

datatype fval = FNone | FStr string | FTuple "atom list" | FRef addr

record conv_obj =
  c_system :: string
  c_roles :: fval
  c_messages :: addr
  c_offset :: int
  c_sep_style :: SeparatorStyle
  c_sep :: string
  c_sep2 :: "string option"
  c_stop_str :: fval
  c_stop_token_ids :: fval

datatype obj = OAtoms "atom list" | ORefs "addr list" | OConv conv_obj

type_synonym heap = "obj list"

definition lookup :: "heap \<Rightarrow> addr \<Rightarrow> obj option" where
  "lookup h p = (if p < length h then Some (h ! p) else None)"

definition atoms_at :: "heap \<Rightarrow> addr \<Rightarrow> atom list option" where
  "atoms_at h p = (case lookup h p of Some (OAtoms xs) \<Rightarrow> Some xs | _ \<Rightarrow> None)"

definition refs_at :: "heap \<Rightarrow> addr \<Rightarrow> addr list option" where
  "refs_at h p = (case lookup h p of Some (ORefs ps) \<Rightarrow> Some ps | _ \<Rightarrow> None)"

definition conv_at :: "heap \<Rightarrow> addr \<Rightarrow> conv_obj option" where
  "conv_at h p = (case lookup h p of Some (OConv c) \<Rightarrow> Some c | _ \<Rightarrow> None)"

text \<open>
  Reading the field values of the conversation at an address. The result is \<open>None\<close> when
  the store does not hold objects of the declared types there; what Python does with such
  a conversation is outside the model, and every function on the store returns \<open>None\<close> in
  that case.
\<close>

fun turn_of :: "atom list \<Rightarrow> turn option" where
  "turn_of [AStr role, AStr m] = Some (role, Some m)"
| "turn_of [AStr role, ANone] = Some (role, None)"
| "turn_of _ = None"

fun strs_of :: "atom list \<Rightarrow> string list option" where
  "strs_of [] = Some []"
| "strs_of (AStr s # xs) = map_option ((#) s) (strs_of xs)"
| "strs_of (_ # xs) = None"

fun ints_of :: "atom list \<Rightarrow> int list option" where
  "ints_of [] = Some []"
| "ints_of (AInt n # xs) = map_option ((#) n) (ints_of xs)"
| "ints_of (_ # xs) = None"

definition seq_of :: "heap \<Rightarrow> fval \<Rightarrow> atom list option" where
  "seq_of h v = (case v of FTuple xs \<Rightarrow> Some xs | FRef p \<Rightarrow> atoms_at h p | _ \<Rightarrow> None)"

fun load_turns :: "heap \<Rightarrow> addr list \<Rightarrow> turn list option" where
  "load_turns h [] = Some []"
| "load_turns h (p # ps) =
     do { xs \<leftarrow> atoms_at h p; t \<leftarrow> turn_of xs; ts \<leftarrow> load_turns h ps; Some (t # ts) }"

definition load_stop_str :: "heap \<Rightarrow> fval \<Rightarrow> stop_criteria option" where
  "load_stop_str h v =
     (case v of
        FNone \<Rightarrow> Some StopNone
      | FStr s \<Rightarrow> Some (StopStr s)
      | _ \<Rightarrow> do { xs \<leftarrow> seq_of h v; ss \<leftarrow> strs_of xs; Some (StopList ss) })"

definition load_stop_token_ids :: "heap \<Rightarrow> fval \<Rightarrow> int list option option" where
  "load_stop_token_ids h v =
     (case v of
        FNone \<Rightarrow> Some None
      | _ \<Rightarrow> do { xs \<leftarrow> seq_of h v; ns \<leftarrow> ints_of xs; Some (Some ns) })"

definition load :: "heap \<Rightarrow> addr \<Rightarrow> Conversation option" where
  "load h p =
     do { c \<leftarrow> conv_at h p;
          xs \<leftarrow> seq_of h (c_roles c);
          rs \<leftarrow> strs_of xs;
          ps \<leftarrow> refs_at h (c_messages c);
          ms \<leftarrow> load_turns h ps;
          st \<leftarrow> load_stop_str h (c_stop_str c);
          ids \<leftarrow> load_stop_token_ids h (c_stop_token_ids c);
          Some \<lparr>system = c_system c, roles = rs, messages = ms, offset = c_offset c,
                sep_style = c_sep_style c, sep = c_sep c, sep2 = c_sep2 c,
                stop_str = st, stop_token_ids = ids\<rparr> }"

text \<open>
  \<open>get_prompt\<close> called on the object at an address: it reads the fields and writes
  nothing, so the store is not part of its result.
\<close>

definition get_prompt_obj :: "heap \<Rightarrow> addr \<Rightarrow> (error + string) option" where
  "get_prompt_obj h p = map_option get_prompt (load h p)"

definition atom_of :: "string option \<Rightarrow> atom" where
  "atom_of message = (case message of None \<Rightarrow> ANone | Some m \<Rightarrow> AStr m)"

text \<open>
  \<open>append_message\<close>: the new two-element list is created, then appended to the list that
  \<open>self.messages\<close> refers to.
\<close>

definition append_message :: "heap \<Rightarrow> addr \<Rightarrow> string \<Rightarrow> string option \<Rightarrow> heap option" where
  "append_message h p role message =
     do { c \<leftarrow> conv_at h p;
          ps \<leftarrow> refs_at h (c_messages c);
          Some ((h @ [OAtoms [AStr role, atom_of message]])
                  [c_messages c := ORefs (ps @ [length h])]) }"

text \<open>
  \<open>copy\<close> is \<open>copy.deepcopy(self)\<close>. \<open>deepcopy\<close> returns immutable values as they are,
  copies each list it reaches into a new list, and keeps a memo from the objects already
  copied to their copies, so that a list reached twice is copied once. The fields are
  copied in the order of their declaration, then the new instance is created.
\<close>

type_synonym memo = "addr \<rightharpoonup> addr"

definition copy_atoms :: "heap \<Rightarrow> memo \<Rightarrow> addr \<Rightarrow> (heap \<times> memo \<times> addr) option" where
  "copy_atoms h memo p =
     (case memo p of
        Some q \<Rightarrow> Some (h, memo, q)
      | None \<Rightarrow>
          do { xs \<leftarrow> atoms_at h p;
               Some (h @ [OAtoms xs], memo(p \<mapsto> length h), length h) })"

fun copy_items :: "heap \<Rightarrow> memo \<Rightarrow> addr list \<Rightarrow> (heap \<times> memo \<times> addr list) option" where
  "copy_items h memo [] = Some (h, memo, [])"
| "copy_items h memo (p # ps) =
     do { (h1, memo1, q) \<leftarrow> copy_atoms h memo p;
          (h2, memo2, qs) \<leftarrow> copy_items h1 memo1 ps;
          Some (h2, memo2, q # qs) }"

definition copy_refs :: "heap \<Rightarrow> memo \<Rightarrow> addr \<Rightarrow> (heap \<times> memo \<times> addr) option" where
  "copy_refs h memo p =
     (case memo p of
        Some q \<Rightarrow> Some (h, memo, q)
      | None \<Rightarrow>
          do { ps \<leftarrow> refs_at h p;
               (h1, memo1, qs) \<leftarrow> copy_items (h @ [ORefs []]) (memo(p \<mapsto> length h)) ps;
               Some (h1[length h := ORefs qs], memo1, length h) })"

definition copy_fval :: "heap \<Rightarrow> memo \<Rightarrow> fval \<Rightarrow> (heap \<times> memo \<times> fval) option" where
  "copy_fval h memo v =
     (case v of
        FRef p \<Rightarrow> do { (h1, memo1, q) \<leftarrow> copy_atoms h memo p; Some (h1, memo1, FRef q) }
      | _ \<Rightarrow> Some (h, memo, v))"

definition copy :: "heap \<Rightarrow> addr \<Rightarrow> (heap \<times> addr) option" where
  "copy h p =
     do { c \<leftarrow> conv_at h p;
          (h1, memo1, rs) \<leftarrow> copy_fval h Map.empty (c_roles c);
          (h2, memo2, ms) \<leftarrow> copy_refs h1 memo1 (c_messages c);
          (h3, memo3, st) \<leftarrow> copy_fval h2 memo2 (c_stop_str c);
          (h4, memo4, ids) \<leftarrow> copy_fval h3 memo3 (c_stop_token_ids c);
          Some (h4 @ [OConv (c\<lparr>c_roles := rs, c_messages := ms, c_stop_str := st,
                               c_stop_token_ids := ids\<rparr>)], length h4) }"

section \<open>The templates\<close>

text \<open>
  The store when the module has been loaded: each template and, before it, the empty list
  its \<open>messages\<close> field refers to. \<open>conv_templates\<close> maps a name to the address of its
  template, in the order of the dictionary.
\<close>

definition conv_llava_plain :: conv_obj where
  "conv_llava_plain =
     \<lparr>c_system = '''', c_roles = FTuple [AStr '''', AStr ''''], c_messages = 0, c_offset = 0,
      c_sep_style = PLAIN, c_sep = ''\<newline>'', c_sep2 = None, c_stop_str = FNone,
      c_stop_token_ids = FNone\<rparr>"

definition conv_vicuna_v1 :: conv_obj where
  "conv_vicuna_v1 =
     \<lparr>c_system =
        ''A chat between a curious user and an artificial intelligence assistant. '' @
        ''The assistant gives helpful, detailed, and polite answers to the user's questions.'',
      c_roles = FTuple [AStr ''USER'', AStr ''ASSISTANT''], c_messages = 2, c_offset = 0,
      c_sep_style = TWO, c_sep = '' '', c_sep2 = Some ''</s>'', c_stop_str = FStr ''</s>'',
      c_stop_token_ids = FNone\<rparr>"

definition module_heap :: heap where
  "module_heap = [ORefs [], OConv conv_llava_plain, ORefs [], OConv conv_vicuna_v1]"

definition conv_templates :: "(string \<times> addr) list" where
  "conv_templates = [(''plain'', 1), (''v1'', 3)]"

text \<open>
  \<open>repr\<close> of a list of strings, as the message of \<open>get_conv_template\<close> formats the keys:
  each string between single quotes, which is what \<open>repr\<close> gives for a string without
  quotes, backslashes and unprintable characters, as the keys of \<open>conv_templates\<close> are.
\<close>

definition repr_keys :: "string list \<Rightarrow> string" where
  "repr_keys ks = ''['' @ join '', '' (map (\<lambda>k. [CHR 0x27] @ k @ [CHR 0x27]) ks) @ '']''"

definition get_conv_template :: "heap \<Rightarrow> string \<Rightarrow> (error + heap \<times> addr) option" where
  "get_conv_template h name =
     (case map_of conv_templates name of
        None \<Rightarrow>
          Some (Inl (ValueError (''Unknown conversation template: '' @ name @
                  ''. Available templates: '' @ repr_keys (map fst conv_templates))))
      | Some p \<Rightarrow> map_option Inr (copy h p))"

text \<open>
  The module's own test: a template is fetched from the loaded module, the turns are
  appended in order, and the prompt is generated.
\<close>

fun append_all :: "heap \<Rightarrow> addr \<Rightarrow> turn list \<Rightarrow> heap option" where
  "append_all h p [] = Some h"
| "append_all h p ((role, message) # ts) =
     do { h1 \<leftarrow> append_message h p role message; append_all h1 p ts }"

definition build_prompt :: "string \<Rightarrow> turn list \<Rightarrow> (error + string) option" where
  "build_prompt name ts =
     do { r \<leftarrow> get_conv_template module_heap name;
          (case r of
             Inl e \<Rightarrow> Some (Inl e)
           | Inr (h, conv) \<Rightarrow> do { h1 \<leftarrow> append_all h conv ts; get_prompt_obj h1 conv }) }"

section \<open>What a caller can do to a conversation\<close>

text \<open>
  The statements by which a caller changes the conversation \<open>x\<close> it holds:
  \<open>x.append_message(role, message)\<close>, an assignment to a field of \<open>x\<close>, to an entry of
  \<open>x.messages\<close>, to the role or the message of an entry, or to an item of a list that a
  field refers to. The value assigned is written in the statement, so a list assigned is a
  new list. An index is a position counted from the front; a negative Python index names
  one of the same positions. Out of range, Python raises \<open>IndexError\<close>; an item of a
  tuple, a string or \<open>None\<close> cannot be assigned to, and Python raises \<open>TypeError\<close>.
\<close>

datatype list_field = F_roles | F_stop_str | F_stop_token_ids

datatype new_value = NewNone | NewStr string | NewTuple "atom list" | NewList "atom list"

datatype mutation =
    AppendMessage string "string option"
  | SetSystem string
  | SetOffset int
  | SetSepStyle SeparatorStyle
  | SetSep string
  | SetSep2 "string option"
  | SetField list_field new_value
  | SetItem list_field nat atom
  | SetMessages "turn list"
  | SetTurn nat turn
  | SetTurnRole nat string
  | SetTurnMessage nat "string option"

fun get_field :: "list_field \<Rightarrow> conv_obj \<Rightarrow> fval" where
  "get_field F_roles c = c_roles c"
| "get_field F_stop_str c = c_stop_str c"
| "get_field F_stop_token_ids c = c_stop_token_ids c"

fun set_field :: "list_field \<Rightarrow> fval \<Rightarrow> conv_obj \<Rightarrow> conv_obj" where
  "set_field F_roles v c = c\<lparr>c_roles := v\<rparr>"
| "set_field F_stop_str v c = c\<lparr>c_stop_str := v\<rparr>"
| "set_field F_stop_token_ids v c = c\<lparr>c_stop_token_ids := v\<rparr>"

fun new_fval :: "heap \<Rightarrow> new_value \<Rightarrow> heap \<times> fval" where
  "new_fval h NewNone = (h, FNone)"
| "new_fval h (NewStr s) = (h, FStr s)"
| "new_fval h (NewTuple xs) = (h, FTuple xs)"
| "new_fval h (NewList xs) = (h @ [OAtoms xs], FRef (length h))"

definition turn_obj :: "turn \<Rightarrow> obj" where
  "turn_obj t = (case t of (role, message) \<Rightarrow> OAtoms [AStr role, atom_of message])"

definition set_item :: "heap \<Rightarrow> addr \<Rightarrow> nat \<Rightarrow> atom \<Rightarrow> (error + heap) option" where
  "set_item h p i v =
     do { xs \<leftarrow> atoms_at h p;
          Some (if i < length xs then Inr (h[p := OAtoms (xs[i := v])]) else Inl IndexError) }"

fun mutate :: "heap \<Rightarrow> addr \<Rightarrow> mutation \<Rightarrow> (error + heap) option" where
  "mutate h x (AppendMessage role message) = map_option Inr (append_message h x role message)"
| "mutate h x (SetSystem s) =
     do { c \<leftarrow> conv_at h x; Some (Inr (h[x := OConv (c\<lparr>c_system := s\<rparr>)])) }"
| "mutate h x (SetOffset n) =
     do { c \<leftarrow> conv_at h x; Some (Inr (h[x := OConv (c\<lparr>c_offset := n\<rparr>)])) }"
| "mutate h x (SetSepStyle st) =
     do { c \<leftarrow> conv_at h x; Some (Inr (h[x := OConv (c\<lparr>c_sep_style := st\<rparr>)])) }"
| "mutate h x (SetSep s) =
     do { c \<leftarrow> conv_at h x; Some (Inr (h[x := OConv (c\<lparr>c_sep := s\<rparr>)])) }"
| "mutate h x (SetSep2 s) =
     do { c \<leftarrow> conv_at h x; Some (Inr (h[x := OConv (c\<lparr>c_sep2 := s\<rparr>)])) }"
| "mutate h x (SetField f v) =
     do { c \<leftarrow> conv_at h x;
          (h1, w) \<leftarrow> Some (new_fval h v);
          Some (Inr (h1[x := OConv (set_field f w c)])) }"
| "mutate h x (SetItem f i v) =
     do { c \<leftarrow> conv_at h x;
          (case get_field f c of
             FRef p \<Rightarrow> set_item h p i v
           | _ \<Rightarrow> Some (Inl TypeError)) }"
| "mutate h x (SetMessages ts) =
     do { c \<leftarrow> conv_at h x;
          Some (Inr ((h @ map turn_obj ts @ [ORefs [length h ..< length h + length ts]])
                       [x := OConv (c\<lparr>c_messages := length h + length ts\<rparr>)])) }"
| "mutate h x (SetTurn i t) =
     do { c \<leftarrow> conv_at h x;
          ps \<leftarrow> refs_at h (c_messages c);
          Some (if i < length ps
                then Inr ((h @ [turn_obj t])[c_messages c := ORefs (ps[i := length h])])
                else Inl IndexError) }"
| "mutate h x (SetTurnRole i s) =
     do { c \<leftarrow> conv_at h x;
          ps \<leftarrow> refs_at h (c_messages c);
          (if i < length ps then set_item h (ps ! i) 0 (AStr s) else Some (Inl IndexError)) }"
| "mutate h x (SetTurnMessage i m) =
     do { c \<leftarrow> conv_at h x;
          ps \<leftarrow> refs_at h (c_messages c);
          (if i < length ps then set_item h (ps ! i) 1 (atom_of m) else Some (Inl IndexError)) }"

text \<open>
  A sequence of such statements; it ends at the first statement that raises, and the
  result is the store at that point.
\<close>

fun mutate_all :: "heap \<Rightarrow> addr \<Rightarrow> mutation list \<Rightarrow> heap" where
  "mutate_all h x [] = h"
| "mutate_all h x (m # ms) =
     (case mutate h x m of Some (Inr h') \<Rightarrow> mutate_all h' x ms | _ \<Rightarrow> h)"

section \<open>Notions for the proofs\<close>

text \<open>
  The footprint of a conversation is the set of addresses its field values are read from:
  its own, those of the lists its fields refer to, and those of its turns.
\<close>

definition fval_refs :: "fval \<Rightarrow> addr set" where
  "fval_refs v = (case v of FRef p \<Rightarrow> {p} | _ \<Rightarrow> {})"

definition footprint :: "heap \<Rightarrow> addr \<Rightarrow> addr set" where
  "footprint h x =
     insert x
       (case conv_at h x of
          None \<Rightarrow> {}
        | Some c \<Rightarrow>
            fval_refs (c_roles c) \<union> fval_refs (c_stop_str c) \<union> fval_refs (c_stop_token_ids c)
            \<union> insert (c_messages c)
                (case refs_at h (c_messages c) of None \<Rightarrow> {} | Some ps \<Rightarrow> set ps))"

definition separate :: "heap \<Rightarrow> addr \<Rightarrow> addr \<Rightarrow> bool" where
  "separate h x y = (footprint h x \<inter> footprint h y = {} \<and> footprint h y \<subseteq> {..<length h})"

text \<open>
  The memo of a copy in progress, from the store \<open>h0\<close> the copy started in: every copy is
  a new address, and the copy of a list of strings holds the elements of its original.
\<close>

definition memo_ok :: "heap \<Rightarrow> heap \<Rightarrow> memo \<Rightarrow> bool" where
  "memo_ok h0 h memo =
     (\<forall>p q. memo p = Some q \<longrightarrow>
        length h0 \<le> q \<and> q < length h \<and>
        (\<forall>xs. atoms_at h0 p = Some xs \<longrightarrow> atoms_at h q = Some xs))"

definition copied :: "memo \<Rightarrow> fval \<Rightarrow> fval \<Rightarrow> bool" where
  "copied memo v w =
     (case v of
        FRef p \<Rightarrow> (case w of FRef q \<Rightarrow> memo p = Some q | _ \<Rightarrow> False)
      | _ \<Rightarrow> w = v)"

section \<open>Example conversations\<close>

definition ex_two :: Conversation where
  "ex_two =
     \<lparr>system = ''S'', roles = [''USER'', ''ASSISTANT''],
      messages = [(''USER'', Some ''hi''), (''ASSISTANT'', Some ''yo''), (''USER'', Some ''''),
                  (''ASSISTANT'', None)],
      offset = 0, sep_style = TWO, sep = '' '', sep2 = Some ''</s>'', stop_str = StopNone,
      stop_token_ids = None\<rparr>"

definition ex_two_blank :: Conversation where
  "ex_two_blank =
     \<lparr>system = '''', roles = [''USER'', ''ASSISTANT''], messages = [(''USER'', Some '''')],
      offset = 0, sep_style = TWO, sep = '' '', sep2 = Some ''</s>'', stop_str = StopNone,
      stop_token_ids = None\<rparr>"

definition ex_no_sep2 :: Conversation where
  "ex_no_sep2 =
     \<lparr>system = ''S'', roles = [''A'', ''B''], messages = [], offset = 0, sep_style = VICUNA,
      sep = '' '', sep2 = None, stop_str = StopNone, stop_token_ids = None\<rparr>"

definition ex_plain :: Conversation where
  "ex_plain =
     \<lparr>system = '''', roles = ['''', ''''], messages = [('''', Some ''<image> '')], offset = 0,
      sep_style = PLAIN, sep = ''\<newline>'', sep2 = None, stop_str = StopNone,
      stop_token_ids = None\<rparr>"

definition ex_plain_ab :: Conversation where
  "ex_plain_ab =
     \<lparr>system = '''', roles = ['''', ''''], messages = [('''', Some ''ab'')], offset = 0,
      sep_style = PLAIN, sep = ''ab'', sep2 = None, stop_str = StopNone,
      stop_token_ids = None\<rparr>"

definition ex_plain_no_sep :: Conversation where
  "ex_plain_no_sep =
     \<lparr>system = '''', roles = ['''', ''''], messages = [('''', Some ''a '')], offset = 0,
      sep_style = PLAIN, sep = '''', sep2 = None, stop_str = StopNone,
      stop_token_ids = None\<rparr>"

definition ex_single :: Conversation where
  "ex_single =
     \<lparr>system = ''S'', roles = [''A'', ''B''], messages = [(''A'', Some ''x''), (''B'', None)],
      offset = 0, sep_style = SINGLE, sep = ''#'', sep2 = None, stop_str = StopNone,
      stop_token_ids = None\<rparr>"

definition ex_single_blank :: Conversation where
  "ex_single_blank =
     \<lparr>system = '''', roles = [''A'', ''B''], messages = [(''A'', Some '''')],
      offset = 0, sep_style = SINGLE, sep = ''#'', sep2 = None, stop_str = StopNone,
      stop_token_ids = None\<rparr>"

definition ex_chatml :: Conversation where
  "ex_chatml =
     \<lparr>system = ''sys'', roles = [''u'', ''a''],
      messages = [(''u'', Some ''hi''), (''a'', Some ''yo''), (''a'', None)],
      offset = 0, sep_style = CHATML, sep = ''|'', sep2 = None, stop_str = StopNone,
      stop_token_ids = None\<rparr>"

text \<open>
  The post-processing of the plain style as the specification words it, with no test of
  \<open>sep\<close>: trim, then append \<open>sep\<close> unless the trimmed string ends with it.
\<close>

definition cleanup_as_specified :: "string \<Rightarrow> string \<Rightarrow> string" where
  "cleanup_as_specified sp ret = (let r = rstrip ret in if endswith r sp then r else r @ sp)"

text \<open>The field values of the template \<open>v1\<close>, and a sequence of statements of a caller.\<close>

definition vicuna_v1_value :: Conversation where
  "vicuna_v1_value =
     \<lparr>system = c_system conv_vicuna_v1, roles = [''USER'', ''ASSISTANT''], messages = [],
      offset = 0, sep_style = TWO, sep = '' '', sep2 = Some ''</s>'',
      stop_str = StopStr ''</s>'', stop_token_ids = None\<rparr>"

definition ex_mutations :: "mutation list" where
  "ex_mutations =
     [AppendMessage ''USER'' (Some ''Hi''), SetSystem ''x'', SetTurnMessage 0 None,
      SetField F_roles (NewList [AStr ''U'', AStr ''A'']), SetItem F_roles 0 (AStr ''V''),
      SetMessages [(''A'', None)]]"

section \<open>Facts about strings and the loops\<close>

lemma two_loop_concat:
  "two_loop seps i ts ret = ret @ concat (map (\<lambda>(j, t). two_turn seps j t) (enumerate i ts))"
  by (induction ts arbitrary: i ret) simp_all

lemma default_loop_concat:
  "default_loop style sp n i ts ret =
     ret @ concat (map (\<lambda>(j, t). default_turn style sp n j t) (enumerate i ts))"
  by (induction ts arbitrary: i ret) simp_all

lemma endswith_iff: "endswith s suf = (\<exists>p. s = p @ suf)"
proof
  assume "endswith s suf"
  then have "s = take (length s - length suf) s @ suf"
    by (metis append_take_drop_id endswith_def)
  then show "\<exists>p. s = p @ suf" ..
next
  assume "\<exists>p. s = p @ suf"
  then show "endswith s suf" by (auto simp: endswith_def)
qed

lemma rstrip_last: "rstrip s \<noteq> [] \<Longrightarrow> \<not> isspace (last (rstrip s))"
proof -
  assume a: "rstrip s \<noteq> []"
  then have "dropWhile isspace (rev s) \<noteq> []" by (simp add: rstrip_def)
  then have "\<not> isspace (hd (dropWhile isspace (rev s)))" by (rule hd_dropWhile)
  then show ?thesis using a by (simp add: rstrip_def last_rev)
qed

lemma plain_cleanup_ends: "sp \<noteq> [] \<Longrightarrow> endswith (plain_cleanup sp ret) sp"
  by (auto simp: plain_cleanup_def Let_def endswith_iff)

lemma plain_cleanup_once:
  assumes "sp \<noteq> []" and "isspace (last sp)"
  shows "plain_cleanup sp ret = rstrip ret @ sp"
    and "\<not> endswith (plain_cleanup sp ret) (sp @ sp)"
proof -
  have no: "\<not> endswith (rstrip ret) sp"
  proof
    assume "endswith (rstrip ret) sp"
    then obtain p where p: "rstrip ret = p @ sp" by (auto simp: endswith_iff)
    with assms(1) have "rstrip ret \<noteq> []" and "last (rstrip ret) = last sp" by simp_all
    with assms(2) rstrip_last show False by metis
  qed
  then show eq: "plain_cleanup sp ret = rstrip ret @ sp"
    using assms(1) by (simp add: plain_cleanup_def)
  show "\<not> endswith (plain_cleanup sp ret) (sp @ sp)"
  proof
    assume "endswith (plain_cleanup sp ret) (sp @ sp)"
    then obtain p where "rstrip ret @ sp = p @ sp @ sp" by (auto simp: eq endswith_iff)
    then have "rstrip ret = p @ sp" by simp
    with no show False by (auto simp: endswith_iff)
  qed
qed

lemma two_loop_blank:
  "two_loop seps i (xs @ (role, Some []) # ys) ret =
   two_loop seps i (xs @ (role, None) # ys) ret"
  by (induction xs arbitrary: i ret) (simp_all add: two_turn_def)

lemma default_loop_blank:
  "default_loop st sp n i (xs @ (role, Some []) # ys) ret =
   default_loop st sp n i (xs @ (role, None) # ys) ret"
  by (induction xs arbitrary: i ret) (simp_all add: default_turn_def)

lemma two_turn_text:
  "two_turn [s1, s2] i t =
     (case t of (r, content) \<Rightarrow>
        (case content of
           None \<Rightarrow> r @ '':''
         | Some m \<Rightarrow>
             (if m \<noteq> [] then r @ '': '' @ m @ (if even i then s1 else s2) else r @ '':'')))"
  by (cases "even i") (auto simp: two_turn_def split: prod.splits option.splits elim: oddE)

lemma default_turn_text:
  "i < n \<Longrightarrow>
   default_turn st sp n i t =
     (case t of (r, content) \<Rightarrow>
        (case content of
           None \<Rightarrow>
             (if st = PLAIN then r @ sp else if st = CHATML then r @ ''\<newline>'' else r)
         | Some m \<Rightarrow>
             (if m = [] then
                (if st = PLAIN then r @ sp else if st = CHATML then r @ ''\<newline>'' else r)
              else if st = CHATML then
                r @ ''\<newline>'' @ m @ sp @ (if Suc i = n then '''' else ''\<newline>'')
              else r @ m @ sp)))"
  by (auto simp: default_turn_def split: prod.splits option.splits)

section \<open>The two-separator style\<close>

text \<open>
  Claim C2, as amended. For a conversation of style \<open>TWO\<close> or \<open>VICUNA\<close> with \<open>sep2\<close> set,
  \<open>get_prompt\<close> returns the system part (\<open>system + sep\<close> when \<open>system\<close> is not empty, the
  empty string otherwise) followed, for each turn at index \<open>i\<close> in order, by the role,
  a colon, a space, the message and then \<open>sep\<close> when \<open>i\<close> is even or \<open>sep2\<close> when \<open>i\<close> is
  odd, when the message is a string that is not empty; and by the role and a colon alone
  when the message is \<open>None\<close> or the empty string.
\<close>

theorem two_style_prompt:
  "(sep_style c = TWO \<or> sep_style c = VICUNA) \<Longrightarrow> sep2 c = Some s2 \<Longrightarrow>
   get_prompt c =
     Inr ((if system c \<noteq> [] then system c @ sep c else '''') @
          concat (map (\<lambda>(i, role, content).
                         (case content of
                            None \<Rightarrow> role @ '':''
                          | Some m \<Rightarrow>
                              (if m \<noteq> [] then
                                 role @ '': '' @ m @ (if even i then sep c else s2)
                               else role @ '':'')))
                      (enumerate 0 (messages c))))"
proof -
  assume st: "sep_style c = TWO \<or> sep_style c = VICUNA" and s2: "sep2 c = Some s2"
  have "two_turn [sep c, s2] i t =
          (case t of (role, content) \<Rightarrow>
             (case content of
                None \<Rightarrow> role @ '':''
              | Some m \<Rightarrow>
                  (if m \<noteq> [] then role @ '': '' @ m @ (if even i then sep c else s2)
                   else role @ '':'')))" for i t
    by (cases "even i") (auto simp: two_turn_def split: prod.splits option.splits elim: oddE)
  then have "(\<lambda>(j, t). two_turn [sep c, s2] j t) =
          (\<lambda>(i, role, content).
             (case content of
                None \<Rightarrow> role @ '':''
              | Some m \<Rightarrow>
                  (if m \<noteq> [] then role @ '': '' @ m @ (if even i then sep c else s2)
                   else role @ '':'')))"
    by (auto simp: fun_eq_iff)
  then show ?thesis using st s2
    by (auto simp: get_prompt_def two_loop_concat)
qed

theorem two_style_prompt_witness:
  "sep_style ex_two = TWO \<and> sep2 ex_two = Some ''</s>''
   \<and> get_prompt ex_two = Inr ''S USER: hi ASSISTANT: yo</s>USER:ASSISTANT:''"
  using two_style_prompt [of ex_two "''</s>''"] by (simp add: ex_two_def)

text \<open>
  The claim as it was stated gives a turn whose message is the empty string the form of
  a turn with a message: the role, a colon, a space, and the separator of its index.
\<close>

theorem two_style_blank_counterexample:
  "get_prompt ex_two_blank = Inr ''USER:''
   \<and> get_prompt ex_two_blank \<noteq> Inr (''USER'' @ '': '' @ '''' @ sep ex_two_blank)"
  by (simp add: ex_two_blank_def get_prompt_def two_turn_def)

section \<open>The missing second separator\<close>

text \<open>
  Claim C3. \<open>get_prompt\<close> raises the \<open>ValueError\<close> about the missing second separator
  exactly when the style is \<open>TWO\<close> or \<open>VICUNA\<close> and \<open>sep2\<close> is \<open>None\<close>, whatever the system
  text and the messages are, and it raises nothing else: in every other case it returns a
  string. \<open>get_prompt\<close> assigns to no field of \<open>self\<close>, so it is a function of the
  conversation alone and has no state to return.
\<close>

theorem get_prompt_raises_iff:
  "(get_prompt c = Inl (ValueError missing_sep2_message)) =
     ((sep_style c = TWO \<or> sep_style c = VICUNA) \<and> sep2 c = None)
   \<and> isl (get_prompt c) = ((sep_style c = TWO \<or> sep_style c = VICUNA) \<and> sep2 c = None)"
  by (auto simp: get_prompt_def split: option.splits)

theorem get_prompt_raises_iff_witness:
  "get_prompt ex_no_sep2 = Inl (ValueError missing_sep2_message)
   \<and> \<not> isl (get_prompt (ex_no_sep2\<lparr>sep2 := Some ''#''\<rparr>))
   \<and> \<not> isl (get_prompt (ex_no_sep2\<lparr>sep_style := PLAIN\<rparr>))"
  using get_prompt_raises_iff [of ex_no_sep2]
    get_prompt_raises_iff [of "ex_no_sep2\<lparr>sep2 := Some ''#''\<rparr>"]
    get_prompt_raises_iff [of "ex_no_sep2\<lparr>sep_style := PLAIN\<rparr>"]
  by (simp add: ex_no_sep2_def)

section \<open>The cleanup of the plain style\<close>

text \<open>
  Claim C4, as amended. For a conversation of style \<open>PLAIN\<close> whose \<open>sep\<close> is not empty,
  \<open>get_prompt\<close> trims the trailing whitespace of what the loop produced and then appends
  \<open>sep\<close> unless the trimmed string ends with it, so the result ends with \<open>sep\<close>; when the
  last character of \<open>sep\<close> is whitespace, as the newline of the plain template is, the
  result is the trimmed string followed by \<open>sep\<close> and ends with exactly one \<open>sep\<close>. With
  an empty \<open>sep\<close> the loop's string is returned as it is. No style other than \<open>PLAIN\<close> is
  cleaned up: every other style returns the string its loop produced.
\<close>

theorem plain_cleanup_prompt:
  "(sep_style c = PLAIN \<longrightarrow>
      get_prompt c =
        Inr (if sep c = [] then default_body c
             else if endswith (rstrip (default_body c)) (sep c) then rstrip (default_body c)
             else rstrip (default_body c) @ sep c))
   \<and> (sep_style c = PLAIN \<and> sep c \<noteq> [] \<longrightarrow>
        (\<exists>r. get_prompt c = Inr r \<and> endswith r (sep c)))
   \<and> (sep_style c = PLAIN \<and> sep c \<noteq> [] \<and> isspace (last (sep c)) \<longrightarrow>
        (\<exists>r. get_prompt c = Inr r \<and> r = rstrip (default_body c) @ sep c
           \<and> endswith r (sep c) \<and> \<not> endswith r (sep c @ sep c)))
   \<and> (sep_style c \<noteq> PLAIN \<and> sep_style c \<noteq> TWO \<and> sep_style c \<noteq> VICUNA \<longrightarrow>
        get_prompt c = Inr (default_body c))
   \<and> ((sep_style c = TWO \<or> sep_style c = VICUNA) \<and> sep2 c = Some s2 \<longrightarrow>
        get_prompt c =
          Inr (two_loop [sep c, s2] 0 (messages c)
                 (if system c \<noteq> [] then system c @ sep c else [])))"
proof (intro conjI impI)
  assume "sep_style c = PLAIN"
  then show "get_prompt c =
        Inr (if sep c = [] then default_body c
             else if endswith (rstrip (default_body c)) (sep c) then rstrip (default_body c)
             else rstrip (default_body c) @ sep c)"
    by (simp add: get_prompt_def plain_cleanup_def)
next
  assume "sep_style c = PLAIN \<and> sep c \<noteq> []"
  then show "\<exists>r. get_prompt c = Inr r \<and> endswith r (sep c)"
    by (simp add: get_prompt_def plain_cleanup_ends)
next
  assume a: "sep_style c = PLAIN \<and> sep c \<noteq> [] \<and> isspace (last (sep c))"
  then have "get_prompt c = Inr (plain_cleanup (sep c) (default_body c))"
    by (simp add: get_prompt_def)
  with a plain_cleanup_once [of "sep c" "default_body c"]
    plain_cleanup_ends [of "sep c" "default_body c"]
  show "\<exists>r. get_prompt c = Inr r \<and> r = rstrip (default_body c) @ sep c
           \<and> endswith r (sep c) \<and> \<not> endswith r (sep c @ sep c)"
    by simp
next
  assume "sep_style c \<noteq> PLAIN \<and> sep_style c \<noteq> TWO \<and> sep_style c \<noteq> VICUNA"
  then show "get_prompt c = Inr (default_body c)" by (simp add: get_prompt_def)
next
  assume "(sep_style c = TWO \<or> sep_style c = VICUNA) \<and> sep2 c = Some s2"
  then show "get_prompt c =
          Inr (two_loop [sep c, s2] 0 (messages c)
                 (if system c \<noteq> [] then system c @ sep c else []))"
    by (auto simp: get_prompt_def)
qed

theorem plain_cleanup_prompt_witness:
  "sep_style ex_plain = PLAIN \<and> isspace (last (sep ex_plain))
   \<and> default_body ex_plain = ''<image> \<newline>''
   \<and> get_prompt ex_plain = Inr ''<image>\<newline>''
   \<and> endswith ''<image>\<newline>'' ''\<newline>''
   \<and> \<not> endswith ''<image>\<newline>'' (''\<newline>'' @ ''\<newline>'')
   \<and> get_prompt ex_single = Inr ''S#Ax#B''"
  using plain_cleanup_prompt [of ex_plain] plain_cleanup_prompt [of ex_single]
  by (simp add: ex_plain_def ex_single_def default_body_def default_turn_def rstrip_def
        isspace_def endswith_def)

text \<open>
  The claim as it was stated fails twice. With the separator \<open>ab\<close> and the message
  \<open>ab\<close> the result ends with two separators. With the empty separator nothing is
  trimmed, where the post-processing of the claim gives \<open>a\<close>.
\<close>

theorem plain_cleanup_counterexample:
  "get_prompt ex_plain_ab = Inr ''abab''
   \<and> endswith ''abab'' (sep ex_plain_ab @ sep ex_plain_ab)
   \<and> get_prompt ex_plain_no_sep = Inr ''a ''
   \<and> cleanup_as_specified (sep ex_plain_no_sep) (default_body ex_plain_no_sep) = ''a''"
  by (simp add: ex_plain_ab_def ex_plain_no_sep_def get_prompt_def default_body_def
        default_turn_def plain_cleanup_def cleanup_as_specified_def rstrip_def endswith_def
        isspace_def)

section \<open>The other styles\<close>

text \<open>
  Claim C8, as amended. For every style other than \<open>TWO\<close> and \<open>VICUNA\<close>, the string the
  loop of \<open>get_prompt\<close> produces is \<open>system\<close>, followed by \<open>sep\<close> unless the style is
  \<open>CHATML\<close>, when \<open>system\<close> is not empty; then for each turn in order, when the message is
  a string that is not empty, the role, the message and \<open>sep\<close> for \<open>PLAIN\<close> and for the
  styles with no rule of their own, and for \<open>CHATML\<close> the role, a newline, the message and
  \<open>sep\<close>, followed by one more newline unless the turn is the last one; when the message
  is \<open>None\<close> or the empty string, the role and \<open>sep\<close> for \<open>PLAIN\<close>, the role and a newline
  for \<open>CHATML\<close>, and the role alone for every other style. \<open>get_prompt\<close> returns that
  string, after the cleanup when the style is \<open>PLAIN\<close>.
\<close>

theorem default_path_prompt:
  "sep_style c \<noteq> TWO \<Longrightarrow> sep_style c \<noteq> VICUNA \<Longrightarrow>
   default_body c =
     (if system c \<noteq> [] then (if sep_style c = CHATML then system c else system c @ sep c)
      else '''') @
     concat (map (\<lambda>(i, role, content).
                (case content of
                   None \<Rightarrow>
                     (if sep_style c = PLAIN then role @ sep c
                      else if sep_style c = CHATML then role @ ''\<newline>''
                      else role)
                 | Some m \<Rightarrow>
                     (if m = [] then
                        (if sep_style c = PLAIN then role @ sep c
                         else if sep_style c = CHATML then role @ ''\<newline>''
                         else role)
                      else if sep_style c = CHATML then
                        role @ ''\<newline>'' @ m @ sep c @
                          (if Suc i = length (messages c) then '''' else ''\<newline>'')
                      else role @ m @ sep c)))
             (enumerate 0 (messages c)))
   \<and> get_prompt c =
       Inr (if sep_style c = PLAIN then plain_cleanup (sep c) (default_body c)
            else default_body c)"
proof -
  assume st: "sep_style c \<noteq> TWO" "sep_style c \<noteq> VICUNA"
  have "default_turn (sep_style c) (sep c) (length (messages c)) i t =
     (case t of (role, content) \<Rightarrow>
                (case content of
                   None \<Rightarrow>
                     (if sep_style c = PLAIN then role @ sep c
                      else if sep_style c = CHATML then role @ ''\<newline>''
                      else role)
                 | Some m \<Rightarrow>
                     (if m = [] then
                        (if sep_style c = PLAIN then role @ sep c
                         else if sep_style c = CHATML then role @ ''\<newline>''
                         else role)
                      else if sep_style c = CHATML then
                        role @ ''\<newline>'' @ m @ sep c @
                          (if Suc i = length (messages c) then '''' else ''\<newline>'')
                      else role @ m @ sep c)))"
    if "i < length (messages c)" for i t
    using that by (auto simp: default_turn_def split: prod.splits option.splits)
  then have eq:
    "map (\<lambda>(j, t). default_turn (sep_style c) (sep c) (length (messages c)) j t)
       (enumerate 0 (messages c)) =
     map (\<lambda>(i, role, content).
                (case content of
                   None \<Rightarrow>
                     (if sep_style c = PLAIN then role @ sep c
                      else if sep_style c = CHATML then role @ ''\<newline>''
                      else role)
                 | Some m \<Rightarrow>
                     (if m = [] then
                        (if sep_style c = PLAIN then role @ sep c
                         else if sep_style c = CHATML then role @ ''\<newline>''
                         else role)
                      else if sep_style c = CHATML then
                        role @ ''\<newline>'' @ m @ sep c @
                          (if Suc i = length (messages c) then '''' else ''\<newline>'')
                      else role @ m @ sep c)))
       (enumerate 0 (messages c))"
    by (intro map_cong refl) (auto simp: in_set_enumerate_eq)
  have "get_prompt c =
       Inr (if sep_style c = PLAIN then plain_cleanup (sep c) (default_body c)
            else default_body c)"
    using st by (simp add: get_prompt_def)
  moreover have "default_body c =
     (if system c \<noteq> [] then (if sep_style c = CHATML then system c else system c @ sep c)
      else '''') @
     concat (map (\<lambda>(j, t). default_turn (sep_style c) (sep c) (length (messages c)) j t)
       (enumerate 0 (messages c)))"
    by (simp add: default_body_def default_loop_concat)
  ultimately show ?thesis by (simp only: eq)
qed

theorem default_path_prompt_witness:
  "sep_style ex_chatml \<noteq> TWO \<and> sep_style ex_chatml \<noteq> VICUNA
   \<and> get_prompt ex_chatml = Inr ''sysu\<newline>hi|\<newline>a\<newline>yo|\<newline>a\<newline>''
   \<and> default_body ex_single = ''S#Ax#B''"
  using default_path_prompt [of ex_chatml] default_path_prompt [of ex_single]
  by (simp add: ex_chatml_def ex_single_def)

text \<open>
  The claim as it was stated gives a turn whose message is the empty string the form of a
  turn with a message, the role, the message and \<open>sep\<close>; the loop adds the role alone.
\<close>

theorem default_path_blank_counterexample:
  "get_prompt ex_single_blank = Inr ''A''
   \<and> get_prompt ex_single_blank \<noteq> Inr (''A'' @ '''' @ sep ex_single_blank)"
  by (simp add: ex_single_blank_def get_prompt_def default_body_def default_turn_def)

section \<open>The empty message\<close>

text \<open>
  Claim C9. In \<open>get_prompt\<close>, for every style, a turn whose message is the empty string is
  formatted as a turn whose message is \<open>None\<close>. Where such a turn stands in the messages,
  between the text of the turns before it and the text of the turns after it, the prompt
  of \<open>TWO\<close> and \<open>VICUNA\<close> has the role and a colon, with no space and no separator;
  the string the loop of the other styles produces has the role and \<open>sep\<close> for \<open>PLAIN\<close>,
  the role and a newline for \<open>CHATML\<close>, and the role alone for every other style, and
  \<open>get_prompt\<close> returns that string, after the cleanup for \<open>PLAIN\<close>. The prompt is the
  same as the prompt of the conversation with \<open>None\<close> in the place of the empty string.
\<close>

theorem blank_message_as_none:
  "messages c = xs @ (role, Some '''') # ys \<Longrightarrow>
   ((sep_style c = TWO \<or> sep_style c = VICUNA) \<and> sep2 c = Some s2 \<longrightarrow>
      (let text = (\<lambda>(i, r, content).
             (case content of
                None \<Rightarrow> r @ '':''
              | Some m \<Rightarrow>
                  (if m \<noteq> [] then r @ '': '' @ m @ (if even i then sep c else s2)
                   else r @ '':'')))
       in get_prompt c =
            Inr ((if system c \<noteq> [] then system c @ sep c else '''') @
                 concat (map text (enumerate 0 xs)) @
                 role @ '':'' @
                 concat (map text (enumerate (Suc (length xs)) ys)))))
   \<and> (sep_style c \<noteq> TWO \<and> sep_style c \<noteq> VICUNA \<longrightarrow>
      (let text = (\<lambda>(i, r, content).
             (case content of
                None \<Rightarrow>
                  (if sep_style c = PLAIN then r @ sep c
                   else if sep_style c = CHATML then r @ ''\<newline>''
                   else r)
              | Some m \<Rightarrow>
                  (if m = [] then
                     (if sep_style c = PLAIN then r @ sep c
                      else if sep_style c = CHATML then r @ ''\<newline>''
                      else r)
                   else if sep_style c = CHATML then
                     r @ ''\<newline>'' @ m @ sep c @
                       (if Suc i = length (messages c) then '''' else ''\<newline>'')
                   else r @ m @ sep c)));
           body =
             (if system c \<noteq> [] then
                (if sep_style c = CHATML then system c else system c @ sep c)
              else '''') @
             concat (map text (enumerate 0 xs)) @
             (if sep_style c = PLAIN then role @ sep c
              else if sep_style c = CHATML then role @ ''\<newline>''
              else role) @
             concat (map text (enumerate (Suc (length xs)) ys))
       in get_prompt c =
            Inr (if sep_style c = PLAIN then
                   (if sep c = [] then body
                    else if endswith (rstrip body) (sep c) then rstrip body
                    else rstrip body @ sep c)
                 else body)))
   \<and> get_prompt c = get_prompt (c\<lparr>messages := xs @ (role, None) # ys\<rparr>)"
proof (intro conjI impI)
  assume ms: "messages c = xs @ (role, Some '''') # ys"
  {
    assume st: "(sep_style c = TWO \<or> sep_style c = VICUNA) \<and> sep2 c = Some s2"
    have f: "(\<lambda>(j, t). two_turn [sep c, s2] j t) =
          (\<lambda>(i, r, content).
             (case content of
                None \<Rightarrow> r @ '':''
              | Some m \<Rightarrow>
                  (if m \<noteq> [] then r @ '': '' @ m @ (if even i then sep c else s2)
                   else r @ '':'')))"
      by (auto simp: fun_eq_iff two_turn_text)
    have "get_prompt c =
        Inr ((if system c \<noteq> [] then system c @ sep c else '''') @
             concat (map (\<lambda>(j, t). two_turn [sep c, s2] j t) (enumerate 0 xs)) @
             role @ '':'' @
             concat (map (\<lambda>(j, t). two_turn [sep c, s2] j t) (enumerate (Suc (length xs)) ys)))"
      using st ms
      by (auto simp: get_prompt_def two_loop_concat enumerate_append_eq two_turn_def)
    then show "let text = (\<lambda>(i, r, content).
             (case content of
                None \<Rightarrow> r @ '':''
              | Some m \<Rightarrow>
                  (if m \<noteq> [] then r @ '': '' @ m @ (if even i then sep c else s2)
                   else r @ '':'')))
       in get_prompt c =
            Inr ((if system c \<noteq> [] then system c @ sep c else '''') @
                 concat (map text (enumerate 0 xs)) @
                 role @ '':'' @
                 concat (map text (enumerate (Suc (length xs)) ys)))"
      unfolding Let_def f [symmetric] .
  }
  {
    assume st: "sep_style c \<noteq> TWO \<and> sep_style c \<noteq> VICUNA"
    let ?n = "length (messages c)"
    let ?dt = "\<lambda>(j, t). default_turn (sep_style c) (sep c) ?n j t"
    let ?text = "\<lambda>(i, r, content).
             (case content of
                None \<Rightarrow>
                  (if sep_style c = PLAIN then r @ sep c
                   else if sep_style c = CHATML then r @ ''\<newline>''
                   else r)
              | Some m \<Rightarrow>
                  (if m = [] then
                     (if sep_style c = PLAIN then r @ sep c
                      else if sep_style c = CHATML then r @ ''\<newline>''
                      else r)
                   else if sep_style c = CHATML then
                     r @ ''\<newline>'' @ m @ sep c @
                       (if Suc i = length (messages c) then '''' else ''\<newline>'')
                   else r @ m @ sep c))"
    have e1: "map ?dt (enumerate 0 xs) = map ?text (enumerate 0 xs)"
      using ms by (intro map_cong refl) (auto simp: in_set_enumerate_eq default_turn_text)
    have e2: "map ?dt (enumerate (Suc (length xs)) ys) = map ?text (enumerate (Suc (length xs)) ys)"
      using ms by (intro map_cong refl) (auto simp: in_set_enumerate_eq default_turn_text)
    have b: "default_body c =
             (if system c \<noteq> [] then
                (if sep_style c = CHATML then system c else system c @ sep c)
              else '''') @
             concat (map ?dt (enumerate 0 xs)) @
             (if sep_style c = PLAIN then role @ sep c
              else if sep_style c = CHATML then role @ ''\<newline>''
              else role) @
             concat (map ?dt (enumerate (Suc (length xs)) ys))"
      using ms
      by (simp add: default_body_def default_loop_concat enumerate_append_eq)
         (simp add: default_turn_def)
    have g: "get_prompt c =
            Inr (if sep_style c = PLAIN then
                   (if sep c = [] then default_body c
                    else if endswith (rstrip (default_body c)) (sep c) then rstrip (default_body c)
                    else rstrip (default_body c) @ sep c)
                 else default_body c)"
      using st by (simp add: get_prompt_def plain_cleanup_def)
    show "let text = ?text;
           body =
             (if system c \<noteq> [] then
                (if sep_style c = CHATML then system c else system c @ sep c)
              else '''') @
             concat (map text (enumerate 0 xs)) @
             (if sep_style c = PLAIN then role @ sep c
              else if sep_style c = CHATML then role @ ''\<newline>''
              else role) @
             concat (map text (enumerate (Suc (length xs)) ys))
       in get_prompt c =
            Inr (if sep_style c = PLAIN then
                   (if sep c = [] then body
                    else if endswith (rstrip body) (sep c) then rstrip body
                    else rstrip body @ sep c)
                 else body)"
      unfolding Let_def e1 [symmetric] e2 [symmetric] b [symmetric] by (rule g)
  }
  have "c = c\<lparr>messages := xs @ (role, Some '''') # ys\<rparr>" using ms by simp
  then have "get_prompt c = get_prompt (c\<lparr>messages := xs @ (role, Some '''') # ys\<rparr>)" by simp
  also have "\<dots> = get_prompt (c\<lparr>messages := xs @ (role, None) # ys\<rparr>)"
    by (simp add: get_prompt_def default_body_def two_loop_blank default_loop_blank
          split: option.splits)
  finally show "get_prompt c = get_prompt (c\<lparr>messages := xs @ (role, None) # ys\<rparr>)" .
qed

theorem blank_message_as_none_witness:
  "messages ex_two =
     [(''USER'', Some ''hi''), (''ASSISTANT'', Some ''yo'')] @
     (''USER'', Some '''') # [(''ASSISTANT'', None)]
   \<and> get_prompt ex_two = Inr ''S USER: hi ASSISTANT: yo</s>USER:ASSISTANT:''
   \<and> get_prompt (ex_chatml\<lparr>messages :=
          [(''u'', Some ''hi'')] @ (''a'', Some '''') # [(''a'', None)]\<rparr>) =
       Inr ''sysu\<newline>hi|\<newline>a\<newline>a\<newline>''
   \<and> get_prompt (ex_single\<lparr>messages := [(''A'', Some ''x'')] @ (''B'', Some '''') # []\<rparr>) =
       Inr ''S#Ax#B''
   \<and> get_prompt (ex_plain\<lparr>messages := [] @ ('''', Some '''') # []\<rparr>) = Inr ''\<newline>''
   \<and> get_prompt ex_two =
       get_prompt (ex_two\<lparr>messages :=
          [(''USER'', Some ''hi''), (''ASSISTANT'', Some ''yo''), (''USER'', None),
           (''ASSISTANT'', None)]\<rparr>)"
  using blank_message_as_none [where c = ex_two
      and xs = "[(''USER'', Some ''hi''), (''ASSISTANT'', Some ''yo'')]" and role = "''USER''"
      and ys = "[(''ASSISTANT'', None)]" and ?s2.0 = "''</s>''"]
    blank_message_as_none [where
      c = "ex_chatml\<lparr>messages := [(''u'', Some ''hi'')] @ (''a'', Some '''') # [(''a'', None)]\<rparr>"
      and xs = "[(''u'', Some ''hi'')]" and role = "''a''" and ys = "[(''a'', None)]"]
    blank_message_as_none [where
      c = "ex_single\<lparr>messages := [(''A'', Some ''x'')] @ (''B'', Some '''') # []\<rparr>"
      and xs = "[(''A'', Some ''x'')]" and role = "''B''" and ys = "[]"]
    blank_message_as_none [where
      c = "ex_plain\<lparr>messages := [] @ ('''', Some '''') # []\<rparr>"
      and xs = "[]" and role = "''''" and ys = "[]"]
  by (auto simp: ex_two_def ex_chatml_def ex_single_def ex_plain_def Let_def rstrip_def
        isspace_def endswith_def)

section \<open>The scenarios of the module's test\<close>

text \<open>
  Claim C1. The template \<open>v1\<close> is fetched, the turns (USER, an image line and
  \<open>Describe it.\<close>), (ASSISTANT, \<open>It is red.\<close>), (USER, \<open>What shape?\<close>), (ASSISTANT,
  \<open>It is square.\<close>) and (ASSISTANT, \<open>None\<close>) are appended in this order, and \<open>get_prompt\<close>
  returns the system text of the template followed by the five turns in the two-separator
  format, ending with the open marker \<open>ASSISTANT:\<close>.
\<close>

theorem v1_scenario:
  "build_prompt ''v1''
     [(''USER'', Some ''<image>\<newline>Describe it.''), (''ASSISTANT'', Some ''It is red.''),
      (''USER'', Some ''What shape?''), (''ASSISTANT'', Some ''It is square.''),
      (''ASSISTANT'', None)] =
   Some (Inr (''A chat between a curious user and an artificial intelligence assistant. '' @
     ''The assistant gives helpful, detailed, and polite answers to the user's questions.'' @
     '' USER: <image>\<newline>Describe it. ASSISTANT: It is red.</s>'' @
     ''USER: What shape? ASSISTANT: It is square.</s>ASSISTANT:''))"
  by code_simp

text \<open>
  Claim C5. The template \<open>plain\<close> is fetched, the turns (empty role, \<open><image>\<close>) and
  (empty role, \<open>A red block.\<close>) are appended, and \<open>get_prompt\<close> returns the two messages,
  each followed by one newline.
\<close>

theorem plain_scenario:
  "build_prompt ''plain'' [('''', Some ''<image>''), ('''', Some ''A red block.'')] =
   Some (Inr ''<image>\<newline>A red block.\<newline>'')"
  by code_simp

text \<open>
  Claim C10. A conversation fetched from the template \<open>plain\<close> with no turn appended has
  the one-character prompt of a newline, not the empty prompt: the cleanup appends \<open>sep\<close>
  to the empty string the loop leaves.
\<close>

theorem plain_no_turns:
  "build_prompt ''plain'' [] = Some (Inr ''\<newline>'')
   \<and> build_prompt ''plain'' [] \<noteq> Some (Inr '''')"
  by code_simp

section \<open>Facts about the store\<close>

subsection \<open>Reading the store\<close>

lemma lookup_append:
  "lookup (h @ ys) p =
     (if p < length h then lookup h p
      else if p < length h + length ys then Some (ys ! (p - length h)) else None)"
  by (auto simp: lookup_def nth_append)

lemma lookup_update:
  "lookup (h[q := ob]) p = (if p = q \<and> q < length h then Some ob else lookup h p)"
  by (auto simp: lookup_def)

lemma lookup_Some_less: "lookup h p = Some ob \<Longrightarrow> p < length h"
  by (auto simp: lookup_def split: if_splits)

lemma atoms_at_less: "atoms_at h p = Some xs \<Longrightarrow> p < length h"
  by (auto simp: atoms_at_def dest: lookup_Some_less split: option.splits obj.splits)

lemma refs_at_less: "refs_at h p = Some xs \<Longrightarrow> p < length h"
  by (auto simp: refs_at_def dest: lookup_Some_less split: option.splits obj.splits)

lemma conv_at_less: "conv_at h p = Some xs \<Longrightarrow> p < length h"
  by (auto simp: conv_at_def dest: lookup_Some_less split: option.splits obj.splits)

subsection \<open>A conversation is read from its footprint\<close>

lemma load_turns_cong:
  "(\<And>p. p \<in> set ps \<Longrightarrow> lookup h' p = lookup h p) \<Longrightarrow> load_turns h' ps = load_turns h ps"
  by (induction ps) (simp_all add: atoms_at_def)

lemma seq_of_cong:
  "(\<And>p. p \<in> fval_refs v \<Longrightarrow> lookup h' p = lookup h p) \<Longrightarrow> seq_of h' v = seq_of h v"
  by (cases v) (simp_all add: seq_of_def fval_refs_def atoms_at_def)

lemma load_stop_str_cong:
  "(\<And>p. p \<in> fval_refs v \<Longrightarrow> lookup h' p = lookup h p) \<Longrightarrow>
   load_stop_str h' v = load_stop_str h v"
  by (cases v) (simp_all add: load_stop_str_def seq_of_def fval_refs_def atoms_at_def)

lemma load_stop_token_ids_cong:
  "(\<And>p. p \<in> fval_refs v \<Longrightarrow> lookup h' p = lookup h p) \<Longrightarrow>
   load_stop_token_ids h' v = load_stop_token_ids h v"
  by (cases v) (simp_all add: load_stop_token_ids_def seq_of_def fval_refs_def atoms_at_def)

lemma same_on_footprint:
  assumes "\<And>p. p \<in> footprint h x \<Longrightarrow> lookup h' p = lookup h p"
  shows "load h' x = load h x" and "footprint h' x = footprint h x"
proof -
  have cx: "conv_at h' x = conv_at h x"
    using assms [of x] by (simp add: footprint_def conv_at_def)
  show "load h' x = load h x"
  proof (cases "conv_at h x")
    case None
    then show ?thesis using cx by (simp add: load_def)
  next
    case (Some c)
    have r: "seq_of h' (c_roles c) = seq_of h (c_roles c)"
      using assms Some by (intro seq_of_cong) (simp add: footprint_def)
    have s: "load_stop_str h' (c_stop_str c) = load_stop_str h (c_stop_str c)"
      using assms Some by (intro load_stop_str_cong) (simp add: footprint_def)
    have t: "load_stop_token_ids h' (c_stop_token_ids c) =
             load_stop_token_ids h (c_stop_token_ids c)"
      using assms Some by (intro load_stop_token_ids_cong) (simp add: footprint_def)
    have m: "refs_at h' (c_messages c) = refs_at h (c_messages c)"
      using assms [of "c_messages c"] Some by (simp add: footprint_def refs_at_def)
    have l: "load_turns h' ps = load_turns h ps" if "refs_at h (c_messages c) = Some ps" for ps
      using assms Some that by (intro load_turns_cong) (simp add: footprint_def)
    show ?thesis
      using cx Some r s t m l by (auto simp: load_def split: Option.bind_split)
  qed
  show "footprint h' x = footprint h x"
  proof (cases "conv_at h x")
    case None
    then show ?thesis using cx by (simp add: footprint_def)
  next
    case (Some c)
    have m: "refs_at h' (c_messages c) = refs_at h (c_messages c)"
      using assms [of "c_messages c"] Some by (simp add: footprint_def refs_at_def)
    then show ?thesis using cx Some by (simp add: footprint_def)
  qed
qed

lemma load_turns_bound: "load_turns h ps = Some ts \<Longrightarrow> p \<in> set ps \<Longrightarrow> p < length h"
  by (induction ps arbitrary: ts) (auto split: Option.bind_splits dest: atoms_at_less)

lemma seq_of_bound: "seq_of h v = Some xs \<Longrightarrow> p \<in> fval_refs v \<Longrightarrow> p < length h"
  by (cases v) (auto simp: seq_of_def fval_refs_def dest: atoms_at_less)

lemma load_stop_str_bound:
  "load_stop_str h v = Some xs \<Longrightarrow> p \<in> fval_refs v \<Longrightarrow> p < length h"
  by (cases v)
     (auto simp: load_stop_str_def fval_refs_def seq_of_def dest: atoms_at_less
           split: Option.bind_splits)

lemma load_stop_token_ids_bound:
  "load_stop_token_ids h v = Some xs \<Longrightarrow> p \<in> fval_refs v \<Longrightarrow> p < length h"
  by (cases v)
     (auto simp: load_stop_token_ids_def fval_refs_def seq_of_def dest: atoms_at_less
           split: Option.bind_splits)

lemma load_footprint_bound:
  assumes "load h x = Some c" and "p \<in> footprint h x"
  shows "p < length h"
  using assms
  by (auto simp: load_def footprint_def split: Option.bind_splits
           dest: conv_at_less refs_at_less load_turns_bound seq_of_bound load_stop_str_bound
             load_stop_token_ids_bound)

subsection \<open>Updates and allocations\<close>

lemma refs_atoms_distinct: "refs_at h p = Some c \<Longrightarrow> atoms_at h q = Some ps \<Longrightarrow> p \<noteq> q"
  by (auto simp: refs_at_def atoms_at_def split: option.splits obj.splits)

lemma upd_conv [simp]:
  assumes "conv_at h x \<noteq> None"
  shows "conv_at (h[x := OConv c']) q = (if q = x then Some c' else conv_at h q)"
    and "refs_at (h[x := OConv c']) q = refs_at h q"
    and "atoms_at (h[x := OConv c']) q = atoms_at h q"
  using assms
  by (auto simp: conv_at_def refs_at_def atoms_at_def lookup_update
           split: option.splits obj.splits dest: lookup_Some_less)

lemma upd_refs [simp]:
  assumes "refs_at h x \<noteq> None"
  shows "conv_at (h[x := ORefs c']) q = conv_at h q"
    and "refs_at (h[x := ORefs c']) q = (if q = x then Some c' else refs_at h q)"
    and "atoms_at (h[x := ORefs c']) q = atoms_at h q"
  using assms
  by (auto simp: conv_at_def refs_at_def atoms_at_def lookup_update
           split: option.splits obj.splits dest: lookup_Some_less)

lemma upd_atoms [simp]:
  assumes "atoms_at h x \<noteq> None"
  shows "conv_at (h[x := OAtoms c']) q = conv_at h q"
    and "refs_at (h[x := OAtoms c']) q = refs_at h q"
    and "atoms_at (h[x := OAtoms c']) q = (if q = x then Some c' else atoms_at h q)"
  using assms
  by (auto simp: conv_at_def refs_at_def atoms_at_def lookup_update
           split: option.splits obj.splits dest: lookup_Some_less)

lemma app_atoms [simp]:
  "conv_at (h @ [OAtoms xs]) q = conv_at h q"
  "refs_at (h @ [OAtoms xs]) q = refs_at h q"
  "atoms_at (h @ [OAtoms xs]) q = (if q = length h then Some xs else atoms_at h q)"
  by (auto simp: conv_at_def refs_at_def atoms_at_def lookup_def nth_append)

lemma app_refs [simp]:
  "conv_at (h @ [ORefs ps]) q = conv_at h q"
  "refs_at (h @ [ORefs ps]) q = (if q = length h then Some ps else refs_at h q)"
  "atoms_at (h @ [ORefs ps]) q = atoms_at h q"
  by (auto simp: conv_at_def refs_at_def atoms_at_def lookup_def nth_append)

lemma app_conv [simp]:
  "conv_at (h @ [OConv c]) q = (if q = length h then Some c else conv_at h q)"
  "refs_at (h @ [OConv c]) q = refs_at h q"
  "atoms_at (h @ [OConv c]) q = atoms_at h q"
  by (auto simp: conv_at_def refs_at_def atoms_at_def lookup_def nth_append)

lemma app_turns [simp]:
  "conv_at (h @ map turn_obj ts @ [ORefs ps]) q = conv_at h q"
  "refs_at (h @ map turn_obj ts @ [ORefs ps]) q =
     (if q = length h + length ts then Some ps else refs_at h q)"
  by (auto simp: conv_at_def refs_at_def lookup_def nth_append turn_obj_def
           split: prod.splits)

lemma turn_obj_simps [simp]:
  "conv_at (h @ [turn_obj t]) q = conv_at h q"
  "refs_at (h @ [turn_obj t]) q = refs_at h q"
  by (simp_all add: turn_obj_def split: prod.splits)

subsection \<open>The statements of a caller write inside the footprint\<close>

lemma set_item_frame:
  assumes "set_item h q i v = Some (Inr h')"
  shows "length h' = length h" and "\<And>p. p \<noteq> q \<Longrightarrow> lookup h' p = lookup h p"
    and "\<And>p. conv_at h' p = conv_at h p" and "\<And>p. refs_at h' p = refs_at h p"
  using assms
  by (auto simp: set_item_def lookup_update split: Option.bind_splits if_splits)

lemma footprint_conv:
  "conv_at h x = Some c \<Longrightarrow>
   footprint h x =
     insert x
       (fval_refs (c_roles c) \<union> fval_refs (c_stop_str c) \<union> fval_refs (c_stop_token_ids c)
        \<union> insert (c_messages c)
            (case refs_at h (c_messages c) of None \<Rightarrow> {} | Some ps \<Rightarrow> set ps))"
  by (simp add: footprint_def)

lemma set_turn_item_frame:
  assumes "conv_at h x = Some c" and "refs_at h (c_messages c) = Some ps" and "i < length ps"
    and "set_item h (ps ! i) k v = Some (Inr h')"
  shows "length h \<le> length h' \<and>
     (\<forall>p. p < length h \<longrightarrow> p \<notin> footprint h x \<longrightarrow> lookup h' p = lookup h p)
     \<and> footprint h' x \<subseteq> footprint h x \<union> {length h..<length h'}"
proof -
  note fr = set_item_frame [OF assms(4)]
  have "ps ! i \<in> footprint h x"
    using assms(1-3) by (simp add: footprint_conv)
  then have "lookup h' p = lookup h p" if "p \<notin> footprint h x" for p
    using that fr(2) [of p] by auto
  moreover have "footprint h' x = footprint h x"
    by (simp add: footprint_def fr cong: option.case_cong)
  ultimately show ?thesis using fr(1) by simp
qed

lemma mutate_frame:
  assumes "mutate h x m = Some (Inr h')"
  shows "length h \<le> length h'"
    and "\<And>p. p < length h \<Longrightarrow> p \<notin> footprint h x \<Longrightarrow> lookup h' p = lookup h p"
    and "footprint h' x \<subseteq> footprint h x \<union> {length h..<length h'}"
proof -
  have "length h \<le> length h'
     \<and> (\<forall>p. p < length h \<longrightarrow> p \<notin> footprint h x \<longrightarrow> lookup h' p = lookup h p)
     \<and> footprint h' x \<subseteq> footprint h x \<union> {length h..<length h'}"
  proof (cases m)
    case (AppendMessage role message)
    then show ?thesis using assms
      by (auto simp: append_message_def footprint_conv lookup_update lookup_append
               split: Option.bind_splits)
  next
    case (SetSystem s)
    then show ?thesis using assms
      by (auto simp: footprint_conv lookup_update split: Option.bind_splits)
  next
    case (SetOffset n)
    then show ?thesis using assms
      by (auto simp: footprint_conv lookup_update split: Option.bind_splits)
  next
    case (SetSepStyle st)
    then show ?thesis using assms
      by (auto simp: footprint_conv lookup_update split: Option.bind_splits)
  next
    case (SetSep s)
    then show ?thesis using assms
      by (auto simp: footprint_conv lookup_update split: Option.bind_splits)
  next
    case (SetSep2 s)
    then show ?thesis using assms
      by (auto simp: footprint_conv lookup_update split: Option.bind_splits)
  next
    case (SetField f v)
    then show ?thesis using assms
      by (cases v; cases f)
         (auto simp: footprint_conv fval_refs_def lookup_update lookup_append
               split: Option.bind_splits)
  next
    case (SetItem f i v)
    then show ?thesis using assms
      apply (clarsimp split: Option.bind_splits fval.splits)
      apply (frule set_item_frame(1))
      apply (cases f)
      apply (auto simp: footprint_def fval_refs_def set_item_frame)
      done
  next
    case (SetMessages ts)
    then show ?thesis using assms
      by (auto simp: footprint_conv lookup_update lookup_append split: Option.bind_splits)
  next
    case (SetTurn i t)
    then show ?thesis using assms
      by (auto simp: footprint_conv lookup_update lookup_append
               split: Option.bind_splits if_splits dest: set_update_subset_insert [THEN subsetD])
  next
    case (SetTurnRole i s)
    with assms obtain c ps where "conv_at h x = Some c" "refs_at h (c_messages c) = Some ps"
      "i < length ps" "set_item h (ps ! i) 0 (AStr s) = Some (Inr h')"
      by (auto split: Option.bind_splits if_splits)
    then show ?thesis by (rule set_turn_item_frame)
  next
    case (SetTurnMessage i s)
    with assms obtain c ps where "conv_at h x = Some c" "refs_at h (c_messages c) = Some ps"
      "i < length ps" "set_item h (ps ! i) 1 (atom_of s) = Some (Inr h')"
      by (auto split: Option.bind_splits if_splits)
    then show ?thesis by (rule set_turn_item_frame)
  qed
  then show "length h \<le> length h'"
    and "\<And>p. p < length h \<Longrightarrow> p \<notin> footprint h x \<Longrightarrow> lookup h' p = lookup h p"
    and "footprint h' x \<subseteq> footprint h x \<union> {length h..<length h'}"
    by blast+
qed

lemma mutate_preserves:
  assumes "mutate h x m = Some (Inr h')" and "separate h x y"
  shows "load h' y = load h y" and "separate h' x y"
proof -
  note fr = mutate_frame [OF assms(1)]
  have same: "lookup h' p = lookup h p" if "p \<in> footprint h y" for p
    using that assms(2) fr(2) [of p] by (auto simp: separate_def)
  then show "load h' y = load h y" by (rule same_on_footprint)
  have fy: "footprint h' y = footprint h y" using same by (rule same_on_footprint)
  show "separate h' x y"
    using assms(2) fr(1,3) unfolding separate_def fy by fastforce
qed

lemma mutate_all_preserves:
  "separate h x y \<Longrightarrow>
   load (mutate_all h x ms) y = load h y \<and> separate (mutate_all h x ms) x y"
proof (induction ms arbitrary: h)
  case Nil
  then show ?case by simp
next
  case (Cons m ms)
  show ?case
  proof (cases "mutate h x m")
    case None
    then show ?thesis using Cons.prems by simp
  next
    case (Some r)
    show ?thesis
    proof (cases r)
      case (Inl e)
      then show ?thesis using Some Cons.prems by simp
    next
      case (Inr h')
      with Some have m: "mutate h x m = Some (Inr h')" by simp
      from mutate_preserves [OF m Cons.prems] Cons.IH [of h'] m
      show ?thesis by simp
    qed
  qed
qed

subsection \<open>The deep copy\<close>

lemma prefix_lookup: "prefix h h' \<Longrightarrow> p < length h \<Longrightarrow> lookup h' p = lookup h p"
  by (auto simp: prefix_def lookup_append)

lemma prefix_atoms_at: "prefix h h' \<Longrightarrow> atoms_at h p = Some xs \<Longrightarrow> atoms_at h' p = Some xs"
  by (frule atoms_at_less) (simp add: atoms_at_def prefix_lookup)

lemma prefix_refs_at: "prefix h h' \<Longrightarrow> refs_at h p = Some xs \<Longrightarrow> refs_at h' p = Some xs"
  by (frule refs_at_less) (simp add: refs_at_def prefix_lookup)

lemma memo_ok_prefix: "memo_ok h0 h memo \<Longrightarrow> prefix h h' \<Longrightarrow> memo_ok h0 h' memo"
  unfolding memo_ok_def
  by (meson prefix_atoms_at prefix_length_le less_le_trans)

lemma copied_mono: "copied memo v w \<Longrightarrow> memo \<subseteq>\<^sub>m memo' \<Longrightarrow> copied memo' v w"
  by (auto simp: copied_def map_le_def dom_def split: fval.splits)

lemma copy_atoms_ok:
  assumes "prefix h0 h" and "memo_ok h0 h memo" and "atoms_at h0 p = Some xs"
  obtains h' memo' q where "copy_atoms h memo p = Some (h', memo', q)"
    and "prefix h h'" and "memo_ok h0 h' memo'" and "memo \<subseteq>\<^sub>m memo'"
    and "memo' p = Some q" and "dom memo' \<subseteq> insert p (dom memo)"
proof (cases "memo p")
  case (Some q)
  then have "copy_atoms h memo p = Some (h, memo, q)" by (simp add: copy_atoms_def)
  then show ?thesis using that assms Some by auto
next
  case None
  have a: "atoms_at h p = Some xs" using assms(1,3) by (rule prefix_atoms_at)
  then have c: "copy_atoms h memo p = Some (h @ [OAtoms xs], memo(p \<mapsto> length h), length h)"
    using None by (simp add: copy_atoms_def)
  have "memo_ok h0 (h @ [OAtoms xs]) (memo(p \<mapsto> length h))"
    using assms by (auto simp: memo_ok_def less_Suc_eq dest: prefix_length_le)
  moreover have "memo \<subseteq>\<^sub>m memo(p \<mapsto> length h)" using None by (auto simp: map_le_def)
  ultimately show ?thesis using that [OF c] by auto
qed

lemma copy_items_ok:
  assumes "prefix h0 h" and "memo_ok h0 h memo" and "\<forall>p\<in>set ps. atoms_at h0 p \<noteq> None"
  shows "\<exists>h' memo' qs. copy_items h memo ps = Some (h', memo', qs)
    \<and> prefix h h' \<and> memo_ok h0 h' memo' \<and> memo \<subseteq>\<^sub>m memo' \<and> map memo' ps = map Some qs"
  using assms
proof (induction ps arbitrary: h memo)
  case Nil
  then show ?case by simp
next
  case (Cons p ps)
  from Cons.prems(3) obtain xs where xs: "atoms_at h0 p = Some xs" by auto
  from copy_atoms_ok [OF Cons.prems(1,2) xs] obtain h1 memo1 q where
    1: "copy_atoms h memo p = Some (h1, memo1, q)" "prefix h h1" "memo_ok h0 h1 memo1"
       "memo \<subseteq>\<^sub>m memo1" "memo1 p = Some q" by metis
  have "prefix h0 h1" using Cons.prems(1) 1(2) by (rule prefix_order.trans)
  from Cons.IH [OF this 1(3)] Cons.prems(3) obtain h2 memo2 qs where
    2: "copy_items h1 memo1 ps = Some (h2, memo2, qs)" "prefix h1 h2" "memo_ok h0 h2 memo2"
       "memo1 \<subseteq>\<^sub>m memo2" "map memo2 ps = map Some qs" by auto
  have "memo2 p = Some q" using 1(5) 2(4) by (auto simp: map_le_def dom_def)
  moreover have "prefix h h2" using 1(2) 2(2) by (rule prefix_order.trans)
  moreover have "memo \<subseteq>\<^sub>m memo2" using 1(4) 2(4) by (rule map_le_trans)
  ultimately show ?case using 1(1) 2(1,3,5) by simp
qed

lemma copy_refs_ok:
  assumes "prefix h0 h" and "memo_ok h0 h memo" and "refs_at h0 p = Some ps"
    and "\<forall>p\<in>set ps. atoms_at h0 p \<noteq> None" and "memo p = None"
  shows "\<exists>h' memo' q qs. copy_refs h memo p = Some (h', memo', q)
    \<and> prefix h h' \<and> memo_ok h0 h' memo' \<and> memo \<subseteq>\<^sub>m memo' \<and> length h0 \<le> q
    \<and> refs_at h' q = Some qs \<and> map memo' ps = map Some qs"
proof -
  let ?q = "length h"
  let ?hA = "h @ [ORefs []]"
  let ?mA = "memo(p \<mapsto> ?q)"
  have r: "refs_at h p = Some ps" using assms(1,3) by (rule prefix_refs_at)
  have pA: "prefix h0 ?hA" using assms(1) by (simp add: prefix_def) (metis append.assoc)
  have n: "atoms_at h0 p = None"
    using assms(3) by (auto simp: refs_at_def atoms_at_def split: option.splits obj.splits)
  have okA: "memo_ok h0 ?hA ?mA"
    using assms(1,2) n by (auto simp: memo_ok_def less_Suc_eq dest: prefix_length_le)
  from copy_items_ok [OF pA okA assms(4)] obtain h1 memo1 qs where
    1: "copy_items ?hA ?mA ps = Some (h1, memo1, qs)" "prefix ?hA h1" "memo_ok h0 h1 memo1"
       "?mA \<subseteq>\<^sub>m memo1" "map memo1 ps = map Some qs" by auto
  from 1(2) obtain ys where ys: "h1 = h @ [ORefs []] @ ys" by (auto simp: prefix_def)
  let ?h' = "h1[?q := ORefs qs]"
  have h': "?h' = h @ [ORefs qs] @ ys" by (simp add: ys list_update_append)
  have c: "copy_refs h memo p = Some (?h', memo1, ?q)"
    using r assms(5) 1(1) by (simp add: copy_refs_def)
  have p': "prefix h ?h'" by (simp add: h')
  have q1: "atoms_at h1 ?q = None" by (simp add: ys atoms_at_def lookup_def)
  have ok': "memo_ok h0 ?h' memo1"
    unfolding memo_ok_def
  proof (intro allI impI conjI)
    fix k v assume kv: "memo1 k = Some v"
    with 1(3) show "length h0 \<le> v" and "v < length ?h'" by (auto simp: memo_ok_def)
    fix xs assume "atoms_at h0 k = Some xs"
    with 1(3) kv have a: "atoms_at h1 v = Some xs" by (auto simp: memo_ok_def)
    with q1 have "v \<noteq> ?q" by auto
    with a show "atoms_at ?h' v = Some xs" by (simp add: atoms_at_def lookup_update)
  qed
  have "memo \<subseteq>\<^sub>m memo1"
    using assms(5) 1(4) by (auto simp: map_le_def dom_def split: if_splits)
  moreover have "refs_at ?h' ?q = Some qs" by (simp add: h' refs_at_def lookup_def)
  moreover have "length h0 \<le> ?q" using assms(1) by (rule prefix_length_le)
  ultimately show ?thesis using c p' ok' 1(5) by blast
qed

lemma copy_fval_ok:
  assumes "prefix h0 h" and "memo_ok h0 h memo" and "\<forall>p\<in>fval_refs v. atoms_at h0 p \<noteq> None"
  shows "\<exists>h' memo' w. copy_fval h memo v = Some (h', memo', w)
    \<and> prefix h h' \<and> memo_ok h0 h' memo' \<and> memo \<subseteq>\<^sub>m memo' \<and> copied memo' v w
    \<and> dom memo' \<subseteq> dom memo \<union> fval_refs v"
proof (cases v)
  case (FRef p)
  with assms(3) obtain xs where "atoms_at h0 p = Some xs" by (auto simp: fval_refs_def)
  from copy_atoms_ok [OF assms(1,2) this] obtain h' memo' q where
    "copy_atoms h memo p = Some (h', memo', q)" "prefix h h'" "memo_ok h0 h' memo'"
    "memo \<subseteq>\<^sub>m memo'" "memo' p = Some q" "dom memo' \<subseteq> insert p (dom memo)" by metis
  then show ?thesis using FRef by (auto simp: copy_fval_def copied_def fval_refs_def)
next
  case FNone
  then show ?thesis using assms(1,2) by (auto simp: copy_fval_def copied_def)
next
  case (FStr s)
  then show ?thesis using assms(1,2) by (auto simp: copy_fval_def copied_def)
next
  case (FTuple xs)
  then show ?thesis using assms(1,2) by (auto simp: copy_fval_def copied_def)
qed

lemma seq_of_copied:
  "copied memo v w \<Longrightarrow> memo_ok h0 hF memo \<Longrightarrow> seq_of h0 v = Some xs \<Longrightarrow> seq_of hF w = Some xs"
  by (cases v; cases w) (auto simp: copied_def memo_ok_def seq_of_def)

lemma load_stop_str_copied:
  "copied memo v w \<Longrightarrow> memo_ok h0 hF memo \<Longrightarrow> load_stop_str h0 v = Some s \<Longrightarrow>
   load_stop_str hF w = Some s"
  by (cases v; cases w)
     (auto simp: copied_def memo_ok_def seq_of_def load_stop_str_def split: Option.bind_splits)

lemma load_stop_token_ids_copied:
  "copied memo v w \<Longrightarrow> memo_ok h0 hF memo \<Longrightarrow> load_stop_token_ids h0 v = Some s \<Longrightarrow>
   load_stop_token_ids hF w = Some s"
  by (cases v; cases w)
     (auto simp: copied_def memo_ok_def seq_of_def load_stop_token_ids_def
           split: Option.bind_splits)

lemma load_turns_copied:
  "map memo ps = map Some qs \<Longrightarrow> memo_ok h0 hF memo \<Longrightarrow> load_turns h0 ps = Some ts \<Longrightarrow>
   load_turns hF qs = Some ts"
proof (induction ps arbitrary: qs ts)
  case Nil
  then show ?case by simp
next
  case (Cons p ps)
  from Cons.prems(1) obtain q qs' where q: "qs = q # qs'" "memo p = Some q"
    "map memo ps = map Some qs'" by (cases qs) auto
  from Cons.prems(3) obtain xs t ts' where l: "atoms_at h0 p = Some xs" "turn_of xs = Some t"
    "load_turns h0 ps = Some ts'" "ts = t # ts'" by (auto split: Option.bind_splits)
  have "atoms_at hF q = Some xs" using q(2) l(1) Cons.prems(2) by (auto simp: memo_ok_def)
  moreover have "load_turns hF qs' = Some ts'" using q(3) Cons.prems(2) l(3) by (rule Cons.IH)
  ultimately show ?case using q(1) l(2,4) by simp
qed

lemma copied_refs_fresh:
  "copied memo v w \<Longrightarrow> memo_ok h0 hF memo \<Longrightarrow> p \<in> fval_refs w \<Longrightarrow> length h0 \<le> p"
  by (cases v; cases w) (auto simp: copied_def memo_ok_def fval_refs_def)

lemma copied_items_fresh:
  "map memo ps = map Some qs \<Longrightarrow> memo_ok h0 hF memo \<Longrightarrow> q \<in> set qs \<Longrightarrow> length h0 \<le> q"
proof -
  assume a: "map memo ps = map Some qs" "memo_ok h0 hF memo" "q \<in> set qs"
  then have "Some q \<in> set (map memo ps)" by simp
  then obtain p where "memo p = Some q" by auto
  with a(2) show ?thesis by (auto simp: memo_ok_def)
qed

lemma load_turns_atoms: "load_turns h ps = Some ts \<Longrightarrow> \<forall>p\<in>set ps. atoms_at h p \<noteq> None"
  by (induction ps arbitrary: ts) (auto split: Option.bind_splits)

lemma seq_of_atoms: "seq_of h v = Some xs \<Longrightarrow> \<forall>p\<in>fval_refs v. atoms_at h p \<noteq> None"
  by (cases v) (auto simp: seq_of_def fval_refs_def)

lemma load_stop_str_atoms:
  "load_stop_str h v = Some xs \<Longrightarrow> \<forall>p\<in>fval_refs v. atoms_at h p \<noteq> None"
  by (cases v) (auto simp: load_stop_str_def seq_of_def fval_refs_def split: Option.bind_splits)

lemma load_stop_token_ids_atoms:
  "load_stop_token_ids h v = Some xs \<Longrightarrow> \<forall>p\<in>fval_refs v. atoms_at h p \<noteq> None"
  by (cases v)
     (auto simp: load_stop_token_ids_def seq_of_def fval_refs_def split: Option.bind_splits)

lemma memo_ok_empty: "memo_ok h h Map.empty"
  by (simp add: memo_ok_def)

lemma copy_ok:
  assumes "load h a = Some cv"
  shows "\<exists>h' b. copy h a = Some (h', b) \<and> prefix h h' \<and> length h \<le> b
     \<and> load h' b = Some cv \<and> (\<forall>p\<in>footprint h' b. length h \<le> p)"
proof -
  from assms obtain c xs rs ps ms st ids where
    L: "conv_at h a = Some c" "seq_of h (c_roles c) = Some xs" "strs_of xs = Some rs"
       "refs_at h (c_messages c) = Some ps" "load_turns h ps = Some ms"
       "load_stop_str h (c_stop_str c) = Some st"
       "load_stop_token_ids h (c_stop_token_ids c) = Some ids"
       and cv: "cv = \<lparr>system = c_system c, roles = rs, messages = ms, offset = c_offset c,
                sep_style = c_sep_style c, sep = c_sep c, sep2 = c_sep2 c,
                stop_str = st, stop_token_ids = ids\<rparr>"
    by (auto simp: load_def split: Option.bind_splits)
  from copy_fval_ok [OF prefix_order.refl memo_ok_empty seq_of_atoms [OF L(2)]]
  obtain h1 memo1 w1 where
    1: "copy_fval h Map.empty (c_roles c) = Some (h1, memo1, w1)" "prefix h h1"
       "memo_ok h h1 memo1" "copied memo1 (c_roles c) w1" "dom memo1 \<subseteq> fval_refs (c_roles c)"
    by auto
  have "memo1 (c_messages c) = None"
  proof (rule ccontr)
    assume "memo1 (c_messages c) \<noteq> None"
    then have "c_messages c \<in> fval_refs (c_roles c)" using 1(5) by auto
    then have "atoms_at h (c_messages c) \<noteq> None" using seq_of_atoms [OF L(2)] by auto
    then show False using L(4) refs_atoms_distinct by fastforce
  qed
  from copy_refs_ok [OF 1(2,3) L(4) load_turns_atoms [OF L(5)] this]
  obtain h2 memo2 q2 qs where
    2: "copy_refs h1 memo1 (c_messages c) = Some (h2, memo2, q2)" "prefix h1 h2"
       "memo_ok h h2 memo2" "memo1 \<subseteq>\<^sub>m memo2" "length h \<le> q2" "refs_at h2 q2 = Some qs"
       "map memo2 ps = map Some qs"
    by auto
  have p2: "prefix h h2" using 1(2) 2(2) by (rule prefix_order.trans)
  from copy_fval_ok [OF p2 2(3) load_stop_str_atoms [OF L(6)]]
  obtain h3 memo3 w3 where
    3: "copy_fval h2 memo2 (c_stop_str c) = Some (h3, memo3, w3)" "prefix h2 h3"
       "memo_ok h h3 memo3" "memo2 \<subseteq>\<^sub>m memo3" "copied memo3 (c_stop_str c) w3"
    by auto
  have p3: "prefix h h3" using p2 3(2) by (rule prefix_order.trans)
  from copy_fval_ok [OF p3 3(3) load_stop_token_ids_atoms [OF L(7)]]
  obtain h4 memo4 w4 where
    4: "copy_fval h3 memo3 (c_stop_token_ids c) = Some (h4, memo4, w4)" "prefix h3 h4"
       "memo_ok h h4 memo4" "memo3 \<subseteq>\<^sub>m memo4" "copied memo4 (c_stop_token_ids c) w4"
    by auto
  have p4: "prefix h h4" using p3 4(2) by (rule prefix_order.trans)
  let ?c' = "c\<lparr>c_roles := w1, c_messages := q2, c_stop_str := w3, c_stop_token_ids := w4\<rparr>"
  let ?hF = "h4 @ [OConv ?c']"
  let ?b = "length h4"
  have c: "copy h a = Some (?hF, ?b)"
    using L(1) 1(1) 2(1) 3(1) 4(1) by (simp add: copy_def)
  have pF: "prefix h ?hF" using p4 by (simp add: prefix_def) (metis append.assoc)
  have okF: "memo_ok h ?hF memo4" using 4(3) by (rule memo_ok_prefix) simp
  have m14: "memo1 \<subseteq>\<^sub>m memo4" using 2(4) 3(4) 4(4) by (meson map_le_trans)
  have m24: "memo2 \<subseteq>\<^sub>m memo4" using 3(4) 4(4) by (meson map_le_trans)
  have c1: "copied memo4 (c_roles c) w1" using 1(4) m14 by (rule copied_mono)
  have c3: "copied memo4 (c_stop_str c) w3" using 3(5) 4(4) by (rule copied_mono)
  have i2: "map memo4 ps = map Some qs"
  proof -
    have "memo4 p = memo2 p" if "p \<in> set ps" for p
    proof -
      from that 2(7) have "memo2 p \<noteq> None"
        by (metis (no_types, lifting) imageI list.set_map option.distinct(1) imageE)
      then show ?thesis using m24 by (auto simp: map_le_def dom_def)
    qed
    then show ?thesis using 2(7) by (metis map_eq_conv)
  qed
  have r2: "refs_at ?hF q2 = Some qs"
  proof -
    have "prefix h2 ?hF" using 3(2) 4(2) by (simp add: prefix_def) (metis append.assoc)
    then show ?thesis using 2(6) by (rule prefix_refs_at)
  qed
  have cb: "conv_at ?hF ?b = Some ?c'" by simp
  have "load ?hF ?b = Some cv"
    using cb r2 seq_of_copied [OF c1 okF L(2)] L(3) load_turns_copied [OF i2 okF L(5)]
      load_stop_str_copied [OF c3 okF L(6)] load_stop_token_ids_copied [OF 4(5) okF L(7)]
    by (simp add: load_def cv)
  moreover have "length h \<le> ?b" using p4 by (rule prefix_length_le)
  moreover have "\<forall>p\<in>footprint ?hF ?b. length h \<le> p"
    using cb r2 \<open>length h \<le> ?b\<close> 2(5) copied_refs_fresh [OF c1 okF]
      copied_refs_fresh [OF c3 okF] copied_refs_fresh [OF 4(5) okF]
      copied_items_fresh [OF i2 okF]
    by (auto simp: footprint_conv)
  ultimately show ?thesis using c pF by blast
qed

subsection \<open>A conversation and its copy\<close>

lemma mutate_all_length: "length h \<le> length (mutate_all h x ms)"
proof (induction ms arbitrary: h)
  case Nil
  show ?case by simp
next
  case (Cons m ms)
  show ?case
  proof (cases "mutate h x m")
    case None
    then show ?thesis by simp
  next
    case (Some r)
    then show ?thesis
      using Cons.IH mutate_frame(1) [of h x m] by (cases r) (auto intro: order_trans)
  qed
qed

lemma load_after_copy:
  assumes "load h a = Some cv" and "prefix h h'"
  shows "load h' a = Some cv" and "footprint h' a = footprint h a"
proof -
  have "lookup h' p = lookup h p" if "p \<in> footprint h a" for p
    using assms that by (meson load_footprint_bound prefix_lookup)
  then show "load h' a = Some cv" and "footprint h' a = footprint h a"
    using assms(1) same_on_footprint [of h a h'] by simp_all
qed

lemma copy_separate:
  assumes "load h a = Some cv"
  obtains h' b where "copy h a = Some (h', b)" and "length h \<le> b" and "b < length h'"
    and "load h' a = Some cv" and "load h' b = Some cv"
    and "separate h' b a" and "separate h' a b"
proof -
  from copy_ok [OF assms] obtain h' b where
    c: "copy h a = Some (h', b)" "prefix h h'" "length h \<le> b" "load h' b = Some cv"
       "\<forall>p\<in>footprint h' b. length h \<le> p" by blast
  note a = load_after_copy [OF assms c(2)]
  have fa: "footprint h' a \<subseteq> {..<length h}"
    using assms a(2) load_footprint_bound by auto
  have fb: "footprint h' b \<subseteq> {..<length h'}"
    using c(4) load_footprint_bound by auto
  have dj: "footprint h' b \<inter> footprint h' a = {}" using fa c(5) by fastforce
  have "separate h' b a"
    using dj fa prefix_length_le [OF c(2)] by (auto simp: separate_def)
  moreover have "separate h' a b" using dj fb by (auto simp: separate_def)
  moreover have "b < length h'" using fb by (auto simp: footprint_def)
  ultimately show ?thesis using that c a by blast
qed

lemma registered:
  "(map_of conv_templates name = None) = (name \<noteq> ''plain'' \<and> name \<noteq> ''v1'')"
  by (simp add: conv_templates_def)

section \<open>Copies are independent\<close>

text \<open>
  Claim C6. For every conversation \<open>a\<close>, \<open>a.copy()\<close> returns a new conversation \<open>b\<close> with
  the field values of \<open>a\<close>; after any sequence of changes made through \<open>b\<close>
  (\<open>append_message\<close>, assignments to its fields, to entries of its messages and to their
  contents) every field value of \<open>a\<close> is what it was and \<open>a.get_prompt()\<close> returns what it
  returned before; and in the same way no change made through \<open>a\<close> is seen through \<open>b\<close>.
\<close>

theorem copy_independent:
  assumes "load h a = Some cv"
  shows "\<exists>h1 b. copy h a = Some (h1, b) \<and> b \<noteq> a \<and> lookup h b = None
     \<and> load h1 a = Some cv \<and> load h1 b = Some cv
     \<and> (\<forall>ms. load (mutate_all h1 b ms) a = Some cv
            \<and> get_prompt_obj (mutate_all h1 b ms) a = Some (get_prompt cv))
     \<and> (\<forall>ms. load (mutate_all h1 a ms) b = Some cv
            \<and> get_prompt_obj (mutate_all h1 a ms) b = Some (get_prompt cv))"
proof -
  from copy_separate [OF assms] obtain h1 b where
    c: "copy h a = Some (h1, b)" "length h \<le> b" "load h1 a = Some cv" "load h1 b = Some cv"
       "separate h1 b a" "separate h1 a b" by metis
  have "a < length h" using assms by (auto simp: load_def dest: conv_at_less split: Option.bind_splits)
  then have "b \<noteq> a" using c(2) by simp
  moreover have "lookup h b = None" using c(2) by (simp add: lookup_def)
  moreover have "load (mutate_all h1 b ms) a = Some cv" for ms
    using mutate_all_preserves [OF c(5), of ms] c(3) by simp
  moreover have "load (mutate_all h1 a ms) b = Some cv" for ms
    using mutate_all_preserves [OF c(6), of ms] c(4) by simp
  ultimately show ?thesis using c(1,3,4) by (simp add: get_prompt_obj_def)
qed

theorem copy_independent_witness:
  "load module_heap 3 = Some vicuna_v1_value
   \<and> (\<exists>h1 b. copy module_heap 3 = Some (h1, b) \<and> b \<noteq> 3
        \<and> load (mutate_all h1 b ex_mutations) 3 = Some vicuna_v1_value
        \<and> get_prompt_obj (mutate_all h1 b ex_mutations) 3 = Some (get_prompt vicuna_v1_value)
        \<and> load (mutate_all h1 3 ex_mutations) b = Some vicuna_v1_value)
   \<and> (case copy module_heap 3 of
         None \<Rightarrow> None
       | Some (h1, b) \<Rightarrow> load (mutate_all h1 b ex_mutations) b) =
       Some (vicuna_v1_value\<lparr>system := ''x'', roles := [''V'', ''A''],
                              messages := [(''A'', None)]\<rparr>)"
proof -
  have l: "load module_heap 3 = Some vicuna_v1_value" by code_simp
  have e: "(case copy module_heap 3 of
         None \<Rightarrow> None
       | Some (h1, b) \<Rightarrow> load (mutate_all h1 b ex_mutations) b) =
       Some (vicuna_v1_value\<lparr>system := ''x'', roles := [''V'', ''A''],
                              messages := [(''A'', None)]\<rparr>)"
    by code_simp
  from copy_independent [OF l] show ?thesis using l e by blast
qed

section \<open>Fetching a template\<close>

text \<open>
  Claim C7. \<open>get_conv_template(name)\<close> raises the \<open>ValueError\<close> whose message names the
  unknown template and lists the registered names \<open>plain\<close> and \<open>v1\<close> exactly when \<open>name\<close>
  is neither of the two. For a registered name whose template is in the store it returns
  a conversation at a new address with the field values of the template; whatever the
  caller then does to that conversation, the template keeps its field values, and a later
  call with the same name returns another new conversation with those field values.
\<close>

theorem get_conv_template_clone:
  "(get_conv_template h name =
      Some (Inl (ValueError (''Unknown conversation template: '' @ name @
                    ''. Available templates: ['plain', 'v1']''))))
     = (name \<noteq> ''plain'' \<and> name \<noteq> ''v1'')
   \<and> (\<exists>e. get_conv_template h name = Some (Inl e)) = (name \<noteq> ''plain'' \<and> name \<noteq> ''v1'')
   \<and> (\<forall>p cv. map_of conv_templates name = Some p \<and> load h p = Some cv \<longrightarrow>
        (\<exists>h1 b. get_conv_template h name = Some (Inr (h1, b)) \<and> lookup h b = None \<and> b \<noteq> p
           \<and> load h1 b = Some cv
           \<and> (\<forall>ms. load (mutate_all h1 b ms) p = Some cv
                \<and> (\<exists>h2 b'. get_conv_template (mutate_all h1 b ms) name = Some (Inr (h2, b'))
                      \<and> b' \<noteq> b \<and> b' \<noteq> p \<and> load h2 b' = Some cv))))"
proof (intro conjI allI impI)
  show "(get_conv_template h name =
      Some (Inl (ValueError (''Unknown conversation template: '' @ name @
                    ''. Available templates: ['plain', 'v1']''))))
     = (name \<noteq> ''plain'' \<and> name \<noteq> ''v1'')"
    by (cases "map_of conv_templates name")
       (auto simp: get_conv_template_def repr_keys_def registered [symmetric],
        simp_all add: conv_templates_def)
  show "(\<exists>e. get_conv_template h name = Some (Inl e)) = (name \<noteq> ''plain'' \<and> name \<noteq> ''v1'')"
    by (cases "map_of conv_templates name")
       (auto simp: get_conv_template_def registered [symmetric])
next
  fix p cv
  assume a: "map_of conv_templates name = Some p \<and> load h p = Some cv"
  from copy_separate [of h p cv] a obtain h1 b where
    c: "copy h p = Some (h1, b)" "length h \<le> b" "b < length h1" "load h1 p = Some cv"
       "load h1 b = Some cv" "separate h1 b p" by metis
  have pl: "p < length h"
    using a by (auto simp: load_def dest: conv_at_less split: Option.bind_splits)
  have later: "load (mutate_all h1 b ms) p = Some cv
       \<and> (\<exists>h2 b'. get_conv_template (mutate_all h1 b ms) name = Some (Inr (h2, b'))
             \<and> b' \<noteq> b \<and> b' \<noteq> p \<and> load h2 b' = Some cv)" for ms
  proof -
    let ?h = "mutate_all h1 b ms"
    have l: "load ?h p = Some cv" using mutate_all_preserves [OF c(6), of ms] c(4) by simp
    from copy_separate [OF l] obtain h2 b' where
      d: "copy ?h p = Some (h2, b')" "length ?h \<le> b'" "load h2 b' = Some cv" by metis
    have "b < b'" using c(3) d(2) mutate_all_length [of h1 b ms] by simp
    moreover have "p < b'" using pl c(2) \<open>b < b'\<close> by simp
    ultimately show ?thesis using l d a by (simp add: get_conv_template_def)
  qed
  show "\<exists>h1 b. get_conv_template h name = Some (Inr (h1, b)) \<and> lookup h b = None \<and> b \<noteq> p
           \<and> load h1 b = Some cv
           \<and> (\<forall>ms. load (mutate_all h1 b ms) p = Some cv
                \<and> (\<exists>h2 b'. get_conv_template (mutate_all h1 b ms) name = Some (Inr (h2, b'))
                      \<and> b' \<noteq> b \<and> b' \<noteq> p \<and> load h2 b' = Some cv))"
    using a c(1,2,5) pl later by (auto simp: get_conv_template_def lookup_def)
qed

theorem get_conv_template_clone_witness:
  "get_conv_template module_heap ''v2'' =
     Some (Inl (ValueError
       ''Unknown conversation template: v2. Available templates: ['plain', 'v1']''))
   \<and> map_of conv_templates ''v1'' = Some 3
   \<and> load module_heap 3 = Some vicuna_v1_value
   \<and> (\<exists>h1 b. get_conv_template module_heap ''v1'' = Some (Inr (h1, b)) \<and> b \<noteq> 3
        \<and> load h1 b = Some vicuna_v1_value
        \<and> load (mutate_all h1 b ex_mutations) 3 = Some vicuna_v1_value
        \<and> (\<exists>h2 b'. get_conv_template (mutate_all h1 b ex_mutations) ''v1'' = Some (Inr (h2, b'))
              \<and> b' \<noteq> b \<and> load h2 b' = Some vicuna_v1_value))"
proof -
  have l: "load module_heap 3 = Some vicuna_v1_value" by code_simp
  have m: "map_of conv_templates ''v1'' = Some 3" by (simp add: conv_templates_def)
  have "get_conv_template module_heap ''v2'' =
     Some (Inl (ValueError
       ''Unknown conversation template: v2. Available templates: ['plain', 'v1']''))"
    using get_conv_template_clone [of module_heap "''v2''"] by simp
  moreover have "\<exists>h1 b. get_conv_template module_heap ''v1'' = Some (Inr (h1, b)) \<and> b \<noteq> 3
        \<and> load h1 b = Some vicuna_v1_value
        \<and> load (mutate_all h1 b ex_mutations) 3 = Some vicuna_v1_value
        \<and> (\<exists>h2 b'. get_conv_template (mutate_all h1 b ex_mutations) ''v1'' = Some (Inr (h2, b'))
              \<and> b' \<noteq> b \<and> load h2 b' = Some vicuna_v1_value)"
    using get_conv_template_clone [of module_heap "''v1''"] l m by blast
  ultimately show ?thesis using l m by blast
qed

end
